theory Spec2Isabelle
  imports Complex_Main "HOL-Library.AList"
begin

section \<open>Data model shared by the ItemMovement and Selection plugins\<close>

text \<open>
  Times and pixel coordinates are JavaScript numbers; they are modelled as unbounded
  integers (absolute time units and whole pixels). Identifiers are strings. An item
  object of \<open>config.chart.items\<close> carries the fields the two plugins read:
  \<open>id\<close>, \<open>time.start\<close>, \<open>time.end\<close>, \<open>rowId\<close>, the optional
  \<open>resizable\<close> override (\<open>None\<close> when the item has no such own property), the
  optional \<open>linkedWith\<close> list (an absent list and an empty one behave alike in the
  source and are both \<open>[]\<close>), the \<open>selected\<close> flag and the optional per-item snap
  functions. A snap function receives the item as third argument; the model hands it
  the data fields of the item.
\<close>

type_synonym ident = string

record item_data =
  item_id :: ident
  time_start :: int
  time_end :: int
  rowId :: ident
  item_resizable :: "bool option"
  linkedWith :: "ident list"
  selected :: bool

type_synonym snap = "int \<Rightarrow> int \<Rightarrow> item_data \<Rightarrow> int"

record item = item_data +
  item_snapStart :: "snap option"
  item_snapEnd :: "snap option"

text \<open>A row of \<open>config.list.rows\<close>: its id, the optional \<open>resizable\<close> override and the
  renderer's cache \<open>_internal.items\<close> of the items currently in the row.\<close>

record row =
  row_id :: ident
  row_resizable :: "bool option"
  row_items :: "item list"

text \<open>\<open>_internal.chart.time\<close>: the global visible range and the pixel scale.\<close>

record chart_time =
  time_from :: int
  time_to :: int
  leftGlobal :: int
  timePerPixel :: int

text \<open>
  The ways a handler can fail to return normally. \<open>TypeError\<close>: a property is read
  from \<open>undefined\<close> or \<open>null\<close> (a missing item, row, ghost or down-event).
  \<open>NotFoundError\<close>: \<open>removeChild\<close> of a node that is not a child.
  \<open>NotANumber\<close>: the source would go on computing with \<open>NaN\<close> because a
  gesture origin (\<open>ganttLeft\<close>, \<open>ganttTop\<close>, \<open>itemTop\<close>) was never captured;
  the integer model does not follow that path. \<open>DanglingRecord\<close>: a timer callback
  whose captured movement record is not in the table (records are never deleted, so
  this cannot arise after \<open>labelDown\<close>). \<open>RangeError\<close>: the call stack is
  exhausted by unbounded recursion.
\<close>

datatype error =
  TypeError
  | NotFoundError
  | NotANumber
  | DanglingRecord
  | RangeError

section \<open>ItemMovement plugin\<close>

subsection \<open>Options and per-item movement records\<close>

text \<open>The options that the modelled handlers read. \<open>moveable\<close> and
  \<open>resizerContent\<close> only steer \<open>documentMove\<close>'s choice of axis and row and the
  resizer's markup.\<close>

record Options =
  resizable :: bool
  collisionDetection :: bool
  outOfBorders :: bool
  snapStart :: snap
  snapEnd :: snap
  ghostNode :: bool
  wait :: nat

definition defaultOptions :: Options where
  "defaultOptions =
     \<lparr> resizable = True,
       collisionDetection = True,
       outOfBorders = False,
       snapStart = (\<lambda>timeStart startDiff _. timeStart + startDiff),
       snapEnd = (\<lambda>timeEnd endDiff _. timeEnd + endDiff),
       ghostNode = True,
       wait = 0 \<rparr>"

text \<open>The ghost proxy: the cloned node (a handle), and its \<open>style.left\<close> and
  \<open>style.top\<close> in pixels. The constant style properties are not modelled.\<close>

type_synonym node = nat

record ghost_proxy =
  ghost_node :: node
  ghost_left :: int
  ghost_top :: int

record Movement =
  moving :: bool
  resizing :: bool
  waiting :: bool
  ghost :: "ghost_proxy option"
  itemTop :: "int option"
  itemX :: "real option"
  ganttTop :: "int option"
  ganttLeft :: "int option"

definition fresh_movement :: Movement where
  "fresh_movement =
     \<lparr> moving = False, resizing = False, waiting = False, ghost = None,
       itemTop = None, itemX = None, ganttTop = None, ganttLeft = None \<rparr>"

text \<open>
  What one \<open>ItemAction\<close> instance closes over: its \<open>data\<close> (the item and row it
  was rendered for) and the layout of its \<open>element\<close> that \<open>createGhost\<close> and
  \<open>moveGhost\<close> read (\<open>offsetTop\<close>, and the parsed \<open>margin-top\<close>).
\<close>

record data =
  data_item :: item
  data_row :: row

record element =
  offsetTop :: int
  marginTop :: int

record pointer_event =
  ev_type :: string
  button :: int
  clientX :: int
  clientY :: int
  ctrlKey :: bool

text \<open>
  The state the plugin works on: the slice of the shared store it reads and writes
  (\<open>config.chart.items\<close>, \<open>config.list.rows\<close>, \<open>_internal.chart.time\<close>, the
  published \<open>config.plugin.ItemMovement.item\<close> and \<open>.movement\<close>), the child nodes
  and bounding rectangle of the \<open>chart-timeline\<close> element, and the plugin's own
  \<open>movementState\<close> table. The table is a JavaScript object enumerated by
  \<open>for ... in\<close>, so it is an association list in insertion order. An item or row
  object is referred to by its key in the store, so that a reducer's in-place update
  is seen through every reference. \<open>next_node\<close> is the handle \<open>cloneNode\<close> returns next.
\<close>

record chart_store =
  chart_items :: "ident \<rightharpoonup> item"

record mstate = chart_store +
  list_rows :: "ident \<rightharpoonup> row"
  time :: chart_time
  plugin_item :: "(ident \<times> Movement) option"
  plugin_movement :: "Movement option"
  timeline_children :: "node list"
  ganttRect_top :: int
  ganttRect_left :: int
  movementState :: "(ident \<times> Movement) list"
  next_node :: node

definition isResizable :: "Options \<Rightarrow> data \<Rightarrow> bool" where
  "isResizable options d =
     (let resizable0 = (resizable options \<and>
            (case item_resizable (data_item d) of None \<Rightarrow> True | Some b \<Rightarrow> b))
      in case row_resizable (data_row d) of
           Some r \<Rightarrow> (if resizable0 then r else resizable0)
         | None \<Rightarrow> resizable0)"

definition getMovement :: "data \<Rightarrow> mstate \<Rightarrow> Movement \<times> mstate" where
  "getMovement d st =
     (let itemId = item_id (data_item d)
      in case map_of (movementState st) itemId of
           None \<Rightarrow> (fresh_movement,
                    st\<lparr>movementState := movementState st @ [(itemId, fresh_movement)]\<rparr>)
         | Some m \<Rightarrow> (m, st))"

text \<open>A write through the reference \<open>movementState[itemId]\<close>.\<close>

definition modify_movement :: "ident \<Rightarrow> (Movement \<Rightarrow> Movement) \<Rightarrow> mstate \<Rightarrow> mstate" where
  "modify_movement itemId f st =
     st\<lparr>movementState := AList.map_entry itemId f (movementState st)\<rparr>"

definition saveMovement :: "ident \<Rightarrow> Movement \<Rightarrow> mstate \<Rightarrow> mstate" where
  "saveMovement itemId movement st =
     st\<lparr>plugin_item := Some (itemId, movement),
        plugin_movement :=
          Some ((case plugin_movement st of None \<Rightarrow> fresh_movement | Some current \<Rightarrow> current)
                  \<lparr>moving := moving movement, waiting := waiting movement,
                   resizing := resizing movement\<rparr>)\<rparr>"

definition createGhost ::
  "Options \<Rightarrow> element \<Rightarrow> data \<Rightarrow> pointer_event \<Rightarrow> int \<Rightarrow> int \<Rightarrow> mstate \<Rightarrow> mstate" where
  "createGhost options el d normalized ganttLeft' ganttTop' st =
     (let (movement, st1) = getMovement d st; itemId = item_id (data_item d)
      in if \<not> ghostNode options \<or> ghost movement \<noteq> None then st1
         else
           let itemTop' = clientY normalized - ganttTop' - offsetTop el + marginTop el;
               g = \<lparr> ghost_node = next_node st1,
                     ghost_left = clientX normalized - ganttLeft',
                     ghost_top = clientY normalized - ganttTop' - itemTop' \<rparr>;
               movement' = movement\<lparr>itemTop := Some itemTop', ghost := Some g\<rparr>;
               st2 = st1\<lparr>next_node := Suc (next_node st1),
                         timeline_children := timeline_children st1 @ [ghost_node g]\<rparr>;
               st3 = modify_movement itemId (\<lambda>_. movement') st2
           in saveMovement itemId movement' st3)"

definition moveGhost ::
  "Options \<Rightarrow> element \<Rightarrow> data \<Rightarrow> pointer_event \<Rightarrow> mstate \<Rightarrow> error + mstate" where
  "moveGhost options el d normalized st =
     (if ghostNode options then
        let (movement, st1) = getMovement d st; itemId = item_id (data_item d)
        in case ghost movement of
             None \<Rightarrow> Inl TypeError
           | Some g \<Rightarrow>
               (case (ganttLeft movement, ganttTop movement, itemTop movement) of
                  (Some gl, Some gt, Some it) \<Rightarrow>
                    let g' = g\<lparr>ghost_left := clientX normalized - gl,
                               ghost_top := clientY normalized - gt - it + marginTop el\<rparr>;
                        movement' = movement\<lparr>ghost := Some g'\<rparr>
                    in Inr (saveMovement itemId movement'
                              (modify_movement itemId (\<lambda>_. movement') st1))
                | _ \<Rightarrow> Inl NotANumber)
      else Inr st)"

definition destroyGhost :: "Options \<Rightarrow> data \<Rightarrow> ident \<Rightarrow> mstate \<Rightarrow> error + mstate" where
  "destroyGhost options d itemId st =
     (if \<not> ghostNode options then Inr st
      else case map_of (movementState st) itemId of
             None \<Rightarrow> Inr st
           | Some m \<Rightarrow>
               (case ghost m of
                  None \<Rightarrow> Inr st
                | Some g \<Rightarrow>
                    if ghost_node g \<in> set (timeline_children st) then
                      let st1 = st\<lparr>timeline_children := remove1 (ghost_node g) (timeline_children st)\<rparr>;
                          m' = m\<lparr>ghost := None\<rparr>;
                          st2 = modify_movement itemId (\<lambda>_. m') st1
                      in Inr (saveMovement (item_id (data_item d)) m' st2)
                    else Inl NotFoundError))"

definition getSnapStart :: "Options \<Rightarrow> data \<Rightarrow> snap" where
  "getSnapStart options d =
     (case item_snapStart (data_item d) of Some f \<Rightarrow> f | None \<Rightarrow> snapStart options)"

definition getSnapEnd :: "Options \<Rightarrow> data \<Rightarrow> snap" where
  "getSnapEnd options d =
     (case item_snapEnd (data_item d) of Some f \<Rightarrow> f | None \<Rightarrow> snapEnd options)"

subsection \<open>Starting a gesture: \<open>labelDown\<close>, its wait timer, \<open>resizerDown\<close>\<close>

text \<open>
  \<open>labelDown\<close> marks the item as waiting and schedules a callback after
  \<open>options.wait\<close>. The callback closes over the movement record it obtained (kept
  here as the key of that record) and over the down event; \<open>labelDown\<close> returns the
  scheduled timer next to the new state, and \<open>labelDown_timeout\<close> is the callback.
  \<open>stopPropagation\<close> and \<open>preventDefault\<close> act on the event only.
  \<open>Math.round (a / b)\<close> is \<open>\<lfloor>a / b + 1/2\<rfloor>\<close>; with \<open>timePerPixel = 0\<close> the source
  stores an infinity or \<open>NaN\<close> in \<open>itemX\<close>, the model \<open>0\<close> (nothing reads \<open>itemX\<close>).
\<close>

record timer =
  timer_delay :: nat
  timer_movement :: ident
  timer_ev :: pointer_event

definition labelDown :: "Options \<Rightarrow> data \<Rightarrow> pointer_event \<Rightarrow> mstate \<Rightarrow> mstate \<times> timer option" where
  "labelDown options d ev st =
     (if (ev_type ev = ''pointerdown'' \<or> ev_type ev = ''mousedown'') \<and> button ev \<noteq> 0
      then (st, None)
      else
        let (movement, st1) = getMovement d st; itemId = item_id (data_item d);
            movement' = movement\<lparr>waiting := True\<rparr>;
            st2 = modify_movement itemId (\<lambda>_. movement') st1
        in (saveMovement itemId movement' st2,
            Some \<lparr>timer_delay = wait options, timer_movement = itemId, timer_ev = ev\<rparr>))"

definition labelDown_timeout ::
  "Options \<Rightarrow> element \<Rightarrow> data \<Rightarrow> timer \<Rightarrow> mstate \<Rightarrow> error + mstate" where
  "labelDown_timeout options el d t st =
     (case map_of (movementState st) (timer_movement t) of
        None \<Rightarrow> Inl DanglingRecord
      | Some movement \<Rightarrow>
          if \<not> waiting movement then Inr st
          else
            (case chart_items st (item_id (data_item d)) of
               None \<Rightarrow> Inl TypeError
             | Some item \<Rightarrow>
                 let chartLeftTime = leftGlobal (time st);
                     movement' = movement
                       \<lparr>moving := True,
                        ganttTop := Some (ganttRect_top st),
                        ganttLeft := Some (ganttRect_left st),
                        itemX := Some (real_of_int
                           \<lfloor>real_of_int (time_start item - chartLeftTime)
                              / real_of_int (timePerPixel (time st)) + 1 / 2\<rfloor>)\<rparr>;
                     st1 = modify_movement (timer_movement t) (\<lambda>_. movement') st;
                     st2 = saveMovement (item_id (data_item d)) movement' st1
                 in Inr (createGhost options el d (timer_ev t)
                           (ganttRect_left st) (ganttRect_top st) st2)))"


subsection \<open>The collision validator\<close>

text \<open>Modelled from the spec: \<open>api.time.date(end).diff(start, 'milliseconds')\<close>, whose
  \<open>Api\<close> class is not among the sources; the spec calls it the duration of the
  proposed interval, in time units.\<close>

definition time_diff :: "int \<Rightarrow> int \<Rightarrow> int" where
  "time_diff end' start' = end' - start'"

text \<open>The scan of \<open>row._internal.items\<close>, with its three early returns.\<close>

fun rowItems_collide :: "ident \<Rightarrow> int \<Rightarrow> int \<Rightarrow> item list \<Rightarrow> bool" where
  "rowItems_collide itemId start' end' [] = False"
| "rowItems_collide itemId start' end' (rowItem # rest) =
     (if item_id rowItem \<noteq> itemId then
        if start' \<ge> time_start rowItem \<and> start' \<le> time_end rowItem then True
        else if end' \<ge> time_start rowItem \<and> end' \<le> time_end rowItem then True
        else if start' \<le> time_start rowItem \<and> end' \<ge> time_end rowItem then True
        else rowItems_collide itemId start' end' rest
      else rowItems_collide itemId start' end' rest)"

definition isCollision :: "Options \<Rightarrow> mstate \<Rightarrow> ident \<Rightarrow> ident \<Rightarrow> int \<Rightarrow> int \<Rightarrow> error + bool" where
  "isCollision options st rowId' itemId start' end' =
     (if \<not> collisionDetection options then Inr False
      else if outOfBorders options \<and> (start' < time_from (time st) \<or> end' > time_to (time st))
      then Inr True
      else
        let diff0 = time_diff end' start';
            diff = (if sgn diff0 = - 1 then - diff0 else diff0)
        in if diff \<le> 1 then Inr True
           else case list_rows st rowId' of
                  None \<Rightarrow> Inl TypeError
                | Some row \<Rightarrow> Inr (rowItems_collide itemId start' end' (row_items row)))"

subsection \<open>Moving and resizing along the time axis\<close>

text \<open>
  \<open>documentMove\<close> hands \<open>movementX\<close> and \<open>resizeX\<close> the row and item objects it
  read from the store; they are references, given here by their store keys
  (\<open>rowRef\<close>, \<open>itemRef\<close>), and reading a field of a missing one is a
  \<open>TypeError\<close>. The reducer passed to \<open>state.update\<close> receives the \<open>time\<close> object
  of the item \<open>data.item.id\<close> and overwrites its fields in place, one after the
  other; the item handed to a snap function is read through \<open>itemRef\<close> at the moment
  of the call.
\<close>

definition deref_item :: "mstate \<Rightarrow> ident \<Rightarrow> item \<Rightarrow> item_data" where
  "deref_item st itemRef dflt =
     item_data.truncate (case chart_items st itemRef of Some i \<Rightarrow> i | None \<Rightarrow> dflt)"

text \<open>The reducer \<open>moveItem\<close> that \<open>movementX\<close> passes to \<open>state.update\<close> on the
  path \<open>config.chart.items.<data.item.id>.time\<close>.\<close>

definition moveItem :: "Options \<Rightarrow> data \<Rightarrow> ident \<Rightarrow> item \<Rightarrow> int \<Rightarrow> mstate \<Rightarrow> error + mstate" where
  "moveItem options d itemRef item finalAdd st =
     (let key = item_id (data_item d)
      in case chart_items st key of
           None \<Rightarrow> Inl TypeError
         | Some cur \<Rightarrow>
             let cur1 = cur\<lparr>time_start := time_start cur + finalAdd\<rparr>;
                 st1 = st\<lparr>chart_items := (chart_items st)(key \<mapsto> cur1)\<rparr>;
                 cur2 = cur1\<lparr>time_end :=
                          getSnapEnd options d (time_end cur1) finalAdd
                            (deref_item st1 itemRef item) - 1\<rparr>
             in Inr (st1\<lparr>chart_items := (chart_items st1)(key \<mapsto> cur2)\<rparr>))"

definition movementX ::
  "Options \<Rightarrow> element \<Rightarrow> data \<Rightarrow> pointer_event \<Rightarrow> ident \<Rightarrow> ident \<Rightarrow> int \<Rightarrow> mstate
     \<Rightarrow> error + mstate" where
  "movementX options el d normalized rowRef itemRef timePerPixel' st =
     (let (movement, st1) = getMovement d st
      in case moveGhost options el d normalized st1 of
           Inl e \<Rightarrow> Inl e
         | Inr st2 \<Rightarrow>
            (case ganttLeft movement of
               None \<Rightarrow> Inl NotANumber
             | Some gl \<Rightarrow>
                (let left = clientX normalized - gl;
                     leftMs = leftGlobal (time st2) + left * timePerPixel'
                 in case chart_items st2 itemRef of
                      None \<Rightarrow> Inl TypeError
                    | Some item \<Rightarrow>
                       (let add = leftMs - time_start item;
                            originalStart = time_start item;
                            finalStartTime = getSnapStart options d (time_start item) add
                                               (item_data.truncate item);
                            finalAdd = finalStartTime - originalStart
                        in case list_rows st2 rowRef of
                             None \<Rightarrow> Inl TypeError
                           | Some row \<Rightarrow>
                              (case isCollision options st2 (row_id row) (item_id item)
                                      (time_start item + finalAdd) (time_end item + finalAdd) of
                                 Inl e \<Rightarrow> Inl e
                               | Inr collision \<Rightarrow>
                                  (if finalAdd \<noteq> 0 \<and> \<not> collision
                                   then moveItem options d itemRef item finalAdd st2
                                   else Inr st2))))))"

text \<open>The reducer that \<open>resizeX\<close> passes to \<open>state.update\<close> on the same path.\<close>

definition resizeItem :: "Options \<Rightarrow> data \<Rightarrow> ident \<Rightarrow> item \<Rightarrow> int \<Rightarrow> mstate \<Rightarrow> error + mstate" where
  "resizeItem options d itemRef item finalAdd st =
     (let key = item_id (data_item d)
      in case chart_items st key of
           None \<Rightarrow> Inl TypeError
         | Some cur \<Rightarrow>
             let cur1 = cur\<lparr>time_start :=
                          getSnapStart options d (time_start cur) 0
                            (deref_item st itemRef item)\<rparr>;
                 st1 = st\<lparr>chart_items := (chart_items st)(key \<mapsto> cur1)\<rparr>;
                 cur2 = cur1\<lparr>time_end :=
                          getSnapEnd options d (time_end cur1) finalAdd
                            (deref_item st1 itemRef item) - 1\<rparr>
             in Inr (st1\<lparr>chart_items := (chart_items st1)(key \<mapsto> cur2)\<rparr>))"

definition resizeX ::
  "Options \<Rightarrow> data \<Rightarrow> pointer_event \<Rightarrow> ident \<Rightarrow> ident \<Rightarrow> int \<Rightarrow> mstate \<Rightarrow> error + mstate" where
  "resizeX options d normalized rowRef itemRef timePerPixel' st =
     (if \<not> isResizable options d then Inr st
      else
        (let (movement, st1) = getMovement d st
         in case ganttLeft movement of
              None \<Rightarrow> Inl NotANumber
            | Some gl \<Rightarrow>
               (let left = clientX normalized - gl;
                    leftMs = leftGlobal (time st1) + left * timePerPixel'
                in case chart_items st1 itemRef of
                     None \<Rightarrow> Inl TypeError
                   | Some item \<Rightarrow>
                      (let add = leftMs - time_end item
                       in if time_end item + add < time_start item then Inr st1
                          else
                            (let originalEnd = time_end item;
                                 finalEndTime = getSnapEnd options d (time_end item) add
                                                  (item_data.truncate item) - 1;
                                 finalAdd = finalEndTime - originalEnd
                             in case list_rows st1 rowRef of
                                  None \<Rightarrow> Inl TypeError
                                | Some row \<Rightarrow>
                                   (case isCollision options st1 (row_id row) (item_id item)
                                           (time_start item) (time_end item + finalAdd) of
                                      Inl e \<Rightarrow> Inl e
                                    | Inr collision \<Rightarrow>
                                       (if finalAdd \<noteq> 0 \<and> \<not> collision
                                        then resizeItem options d itemRef item finalAdd st1
                                        else Inr st1)))))))"

subsection \<open>Releasing: \<open>documentUp\<close>\<close>

definition clear_flags :: "Movement \<Rightarrow> Movement" where
  "clear_flags m = m\<lparr>moving := False, resizing := False, waiting := False\<rparr>"

text \<open>The loop \<open>for (const itemId in movementState)\<close> over the keys of the table.\<close>

fun documentUp_loop :: "Options \<Rightarrow> data \<Rightarrow> ident list \<Rightarrow> mstate \<Rightarrow> error + mstate" where
  "documentUp_loop options d [] st = Inr st"
| "documentUp_loop options d (itemId # rest) st =
     (case destroyGhost options d itemId (modify_movement itemId clear_flags st) of
        Inl e \<Rightarrow> Inl e
      | Inr st' \<Rightarrow> documentUp_loop options d rest st')"

definition documentUp :: "Options \<Rightarrow> data \<Rightarrow> pointer_event \<Rightarrow> mstate \<Rightarrow> error + mstate" where
  "documentUp options d ev st =
     (let (movement, st1) = getMovement d st; itemId = item_id (data_item d)
      in if moving movement \<or> resizing movement \<or> waiting movement then
           let movement' = movement\<lparr>moving := False, waiting := False, resizing := False\<rparr>;
               st2 = modify_movement itemId (\<lambda>_. movement') st1;
               st3 = saveMovement itemId movement' st2
           in documentUp_loop options d (map fst (movementState st3)) st3
         else Inr st1)"

text \<open>
  Every mounted \<open>ItemAction\<close> registers its own \<open>documentUp\<close> on the document
  (\<open>destroy\<close> removes it again), so one pointer-up runs the handlers of the mounted
  instances one after the other. The model stops at the first handler that throws.
\<close>

fun pointerup :: "Options \<Rightarrow> data list \<Rightarrow> pointer_event \<Rightarrow> mstate \<Rightarrow> error + mstate" where
  "pointerup options [] ev st = Inr st"
| "pointerup options (d # ds) ev st =
     (case documentUp options d ev st of
        Inl e \<Rightarrow> Inl e
      | Inr st' \<Rightarrow> pointerup options ds ev st')"

subsection \<open>The handlers as the browser runs them\<close>




section \<open>Selection plugin\<close>

subsection \<open>Item objects, pointer data, plugin data and the store\<close>

text \<open>
  The selection engine holds item objects, not copies: \<open>collectLinkedItems\<close> pushes
  the objects it reads from \<open>config.chart.items\<close>, \<open>new Set\<close> compares objects by
  identity, and a write to the \<open>selected\<close> flag of a store item is seen through every
  reference to that object. An item object is therefore a reference (\<open>ref\<close>);
  \<open>objects\<close> gives the fields each object has at the moment, and \<open>chart_item_refs\<close> is
  \<open>config.chart.items\<close>: the object under each key, in insertion order. Two references
  are the same object exactly when they are equal; two different objects may have the
  same fields.
\<close>

type_synonym ref = nat

text \<open>
  The fields of the \<open>TimelinePointer\<close> plugin data that the selection engine reads.
  \<open>targetData\<close> is the item under the pointer, \<open>events.down\<close> the initiating
  down-event; either may be absent (\<open>null\<close>).
\<close>

record Point =
  point_x :: int
  point_y :: int

record Area =
  area_x :: int
  area_y :: int
  area_width :: int
  area_height :: int

datatype target_type = ITEM | CELL | NO_TARGET

record PointerEvents =
  events_down :: "pointer_event option"
  events_move :: "pointer_event option"
  events_up :: "pointer_event option"

record TimelinePointerPluginData =
  isMoving :: bool
  pointer_targetType :: target_type
  pointer_targetData :: "ref option"
  pointer_initialPosition :: Point
  pointer_currentPosition :: Point
  pointer_events :: PointerEvents
  pointer_pointerState :: string

record PluginData =
  cells :: bool
  items :: bool
  isSelecting :: bool
  pointerState :: string
  targetType :: target_type
  initialPosition :: Point
  currentPosition :: Point
  selectionArea :: Area
  selected_ITEM :: "ref list"
  events :: PointerEvents

text \<open>
  The state of one \<open>SelectionPlugin\<close>: the items of the shared store and the item
  objects, the published copy of the plugin data under \<open>config.plugin.Selection\<close>,
  the fields \<open>this.data\<close> and \<open>this.poitnerData\<close>, and \<open>notified\<close>, the successive
  values of \<open>config.chart.items\<close> (each key with the fields of its object) that the
  store has shown to its subscribers.
\<close>

record sstate =
  chart_item_refs :: "(ident \<times> ref) list"
  objects :: "ref \<Rightarrow> item"
  plugin_Selection :: "PluginData option"
  this_data :: PluginData
  this_poitnerData :: TimelinePointerPluginData
  notified :: "(ident \<times> item) list list"

definition items_view :: "sstate \<Rightarrow> (ident \<times> item) list" where
  "items_view st = map (\<lambda>kr. (fst kr, objects st (snd kr))) (chart_item_refs st)"

text \<open>
  Modelled from the spec: the shared reactive store (\<open>deep-state-observer\<close>), which
  is not among the sources. An \<open>update\<close> writes one path and notifies the
  subscribers; the wildcard path \<open>config.chart.items.*.selected\<close> writes the flag of
  the object under every key; \<open>multi().update(...)...done()\<close> applies its updates in
  order as one indivisible update with a single notification. A write to the
  \<open>selected\<close> flag under a key that is not in the store changes no object.
\<close>

datatype store_update =
  Update_all_selected bool
  | Update_selected ident bool

definition set_selected :: "bool \<Rightarrow> ref \<Rightarrow> (ref \<Rightarrow> item) \<Rightarrow> (ref \<Rightarrow> item)" where
  "set_selected b r h = h(r := (h r)\<lparr>selected := b\<rparr>)"

fun apply_update :: "(ident \<times> ref) list \<Rightarrow> store_update \<Rightarrow> (ref \<Rightarrow> item) \<Rightarrow> (ref \<Rightarrow> item)" where
  "apply_update its (Update_all_selected b) h = fold (set_selected b) (map snd its) h"
| "apply_update its (Update_selected k b) h =
     (case map_of its k of None \<Rightarrow> h | Some r \<Rightarrow> set_selected b r h)"

definition notify :: "sstate \<Rightarrow> sstate" where
  "notify st = st\<lparr>notified := notified st @ [items_view st]\<rparr>"

definition state_update :: "store_update \<Rightarrow> sstate \<Rightarrow> sstate" where
  "state_update u st =
     notify (st\<lparr>objects := apply_update (chart_item_refs st) u (objects st)\<rparr>)"

definition multi_done :: "store_update list \<Rightarrow> sstate \<Rightarrow> sstate" where
  "multi_done us st =
     notify (st\<lparr>objects := fold (apply_update (chart_item_refs st)) us (objects st)\<rparr>)"

subsection \<open>The selection engine\<close>

definition updateData :: "sstate \<Rightarrow> sstate" where
  "updateData st = st\<lparr>plugin_Selection := Some (this_data st)\<rparr>"

definition getItemsUnderSelectionArea :: "sstate \<Rightarrow> ref list" where
  "getItemsUnderSelectionArea st = []"

definition getSelectionArea :: "sstate \<Rightarrow> Area" where
  "getSelectionArea st =
     (let initial = pointer_initialPosition (this_poitnerData st);
          current = pointer_currentPosition (this_poitnerData st);
          width = point_x current - point_x initial;
          height = point_y current - point_y initial;
          area = \<lparr>area_x = 0, area_y = 0, area_width = 0, area_height = 0\<rparr>;
          area1 = (if width \<ge> 0 then area\<lparr>area_x := point_x initial, area_width := width\<rparr>
                   else area\<lparr>area_x := point_x current, area_width := \<bar>width\<bar>\<rparr>)
      in if height \<ge> 0 then area1\<lparr>area_y := point_y initial, area_height := height\<rparr>
         else area1\<lparr>area_y := point_y current, area_height := \<bar>height\<bar>\<rparr>)"

text \<open>
  \<open>collectLinkedItems\<close> calls itself inside its loop over \<open>item.linkedWith\<close>. The
  first argument is the number of nested calls the call stack still admits; when it
  is used up the engine throws a \<open>RangeError\<close>. \<open>h\<close> gives the fields of the objects
  and \<open>its\<close> is \<open>config.chart.items\<close>. A linked id that is not in the store makes the
  nested call read \<open>linkedWith\<close> of \<open>undefined\<close>.
\<close>

fun collectLinkedItems ::
    "nat \<Rightarrow> (ref \<Rightarrow> item) \<Rightarrow> (ident \<times> ref) list \<Rightarrow> ref \<Rightarrow> ref list \<Rightarrow> error + ref list"
  and collectLinkedItems_loop ::
    "nat \<Rightarrow> (ref \<Rightarrow> item) \<Rightarrow> (ident \<times> ref) list \<Rightarrow> ident list \<Rightarrow> ref list \<Rightarrow> error + ref list" where
  "collectLinkedItems 0 h its item current = Inl RangeError"
| "collectLinkedItems (Suc n) h its item current =
     (if linkedWith (h item) \<noteq> []
      then collectLinkedItems_loop n h its (linkedWith (h item)) current
      else Inr current)"
| "collectLinkedItems_loop n h its [] current = Inr current"
| "collectLinkedItems_loop n h its (linkedItemId # rest) current =
     (case map_of its linkedItemId of
        None \<Rightarrow> Inl TypeError
      | Some linkedItem \<Rightarrow>
         (case collectLinkedItems n h its linkedItem (current @ [linkedItem]) of
            Inl e \<Rightarrow> Inl e
          | Inr current' \<Rightarrow> collectLinkedItems_loop n h its rest current'))"

text \<open>\<open>[...new Set(xs).values()]\<close>: the elements of \<open>xs\<close> in order of first occurrence.
  It is applied to lists of references, so that equal elements are the same object.\<close>

definition Set_values :: "'a list \<Rightarrow> 'a list" where
  "Set_values xs = fold (\<lambda>x acc. if x \<in> set acc then acc else acc @ [x]) xs []"

definition getSelected :: "nat \<Rightarrow> sstate \<Rightarrow> ref \<Rightarrow> error + ref list" where
  "getSelected stack st item =
     (if find (\<lambda>selectedItem. item_id (objects st selectedItem) = item_id (objects st item))
           (selected_ITEM (this_data st)) \<noteq> None
      then Inr (selected_ITEM (this_data st))
      else
        (case events_down (pointer_events (this_poitnerData st)) of
           None \<Rightarrow> Inl TypeError
         | Some down \<Rightarrow>
            (if ctrlKey down then
               (case collectLinkedItems stack (objects st) (chart_item_refs st) item [item] of
                  Inl e \<Rightarrow> Inl e
                | Inr linked \<Rightarrow> Inr (Set_values (selected_ITEM (this_data st) @ linked)))
             else collectLinkedItems stack (objects st) (chart_item_refs st) item [item])))"

definition selectCells :: "sstate \<Rightarrow> sstate" where
  "selectCells st =
     (let st1 = st\<lparr>this_data := (this_data st)\<lparr>isSelecting := True\<rparr>\<rparr>;
          st2 = st1\<lparr>this_data := (this_data st1)\<lparr>selectionArea := getSelectionArea st1\<rparr>\<rparr>;
          selectingItems = getItemsUnderSelectionArea st2
      in if length selectingItems = 0 then
           (let st3 = state_update (Update_all_selected False) st2
            in st3\<lparr>this_data := (this_data st3)\<lparr>selected_ITEM := []\<rparr>\<rparr>)
         else st2)"

text \<open>The path of the update for a selected item is built from the \<open>id\<close> field of that
  item: the flag is written to the store object under that key.\<close>

definition selectItems :: "nat \<Rightarrow> sstate \<Rightarrow> error + sstate" where
  "selectItems stack st =
     (let pd = this_poitnerData st;
          st1 = st\<lparr>this_data := (this_data st)
                  \<lparr>isSelecting := False,
                   selectionArea := getSelectionArea st,
                   currentPosition := pointer_currentPosition pd,
                   initialPosition := pointer_initialPosition pd\<rparr>\<rparr>
      in case pointer_targetData pd of
           None \<Rightarrow> Inl TypeError
         | Some item \<Rightarrow>
            (case getSelected stack st1 item of
               Inl e \<Rightarrow> Inl e
             | Inr sel \<Rightarrow>
                (let st2 = st1\<lparr>this_data := (this_data st1)\<lparr>selected_ITEM := sel\<rparr>\<rparr>;
                     multi = Update_all_selected False
                               # map (\<lambda>item. Update_selected (item_id (objects st2 item)) True) sel
                 in Inr (multi_done multi st2))))"

definition onPointerData :: "nat \<Rightarrow> sstate \<Rightarrow> error + sstate" where
  "onPointerData stack st =
     (let pd = this_poitnerData st;
          r = (if isMoving pd \<and> pointer_targetType pd = CELL \<and> cells (this_data st)
               then Inr (selectCells st)
               else if isMoving pd \<and> pointer_targetType pd = ITEM \<and> items (this_data st)
               then selectItems stack st
               else if \<not> isMoving pd
               then Inr (st\<lparr>this_data := (this_data st)\<lparr>isSelecting := False\<rparr>\<rparr>)
               else Inr st)
      in case r of
           Inl e \<Rightarrow> Inl e
         | Inr st1 \<Rightarrow>
             Inr (updateData (st1\<lparr>this_data := (this_data st1)
                    \<lparr>events := pointer_events pd,
                     pointerState := pointer_pointerState pd,
                     targetType := pointer_targetType pd\<rparr>\<rparr>)))"

section \<open>Properties as the specification words them\<close>

text \<open>Overlap under inclusive-boundary comparison: the proposed start or end falls
  within the other item's interval, or the proposed interval contains the other's.\<close>

definition overlaps_inclusive :: "int \<Rightarrow> int \<Rightarrow> item \<Rightarrow> bool" where
  "overlaps_inclusive start' end' other =
     ((time_start other \<le> start' \<and> start' \<le> time_end other)
      \<or> (time_start other \<le> end' \<and> end' \<le> time_end other)
      \<or> (start' \<le> time_start other \<and> time_end other \<le> end'))"

text \<open>The collision predicate in the words of the specification, over the items of
  the target row: a duration of at most one time unit, zero-width and negative-width
  intervals included, is a collision.\<close>

definition collides_stated :: "Options \<Rightarrow> chart_time \<Rightarrow> item list \<Rightarrow> ident \<Rightarrow> int \<Rightarrow> int \<Rightarrow> bool" where
  "collides_stated options t others itemId start' end' =
     (collisionDetection options \<and>
        ((outOfBorders options \<and> (start' < time_from t \<or> end' > time_to t))
         \<or> end' - start' \<le> 1
         \<or> list_ex (\<lambda>other. item_id other \<noteq> itemId \<and> overlaps_inclusive start' end' other) others))"

text \<open>\<open>linked h its a b\<close>: the object \<open>b\<close> is reachable from the object \<open>a\<close> by following
  \<open>linkedWith\<close> through the store at least once.\<close>

inductive linked :: "(ref \<Rightarrow> item) \<Rightarrow> (ident \<times> ref) list \<Rightarrow> ref \<Rightarrow> ref \<Rightarrow> bool" for h its where
  direct: "l \<in> set (linkedWith (h a)) \<Longrightarrow> map_of its l = Some b \<Longrightarrow> linked h its a b"
| via: "l \<in> set (linkedWith (h a)) \<Longrightarrow> map_of its l = Some b \<Longrightarrow> linked h its b c
         \<Longrightarrow> linked h its a c"





text \<open>The non-empty link paths from \<open>a\<close> of at most \<open>n\<close> steps, in depth-first order:
  for every linked id in turn, the path to its object, then the paths through it.\<close>

fun link_paths :: "nat \<Rightarrow> (ref \<Rightarrow> item) \<Rightarrow> (ident \<times> ref) list \<Rightarrow> ref \<Rightarrow> ref list list" where
  "link_paths 0 h its a = []"
| "link_paths (Suc n) h its a =
     concat (map (\<lambda>l. case map_of its l of
                         None \<Rightarrow> []
                       | Some b \<Rightarrow> [b] # map ((#) b) (link_paths n h its b))
               (linkedWith (h a)))"


text \<open>A movement record after a release: no flag set and no ghost.\<close>

definition released :: "Movement \<Rightarrow> bool" where
  "released m = (\<not> moving m \<and> \<not> resizing m \<and> \<not> waiting m \<and> ghost m = None)"

text \<open>Every tracked item is released.\<close>

definition all_released :: "mstate \<Rightarrow> bool" where
  "all_released st = list_all (\<lambda>km. released (snd km)) (movementState st)"

text \<open>The item of the listener \<open>d\<close> is moving, resizing or waiting: the test that
  \<open>documentUp\<close> makes on its own item before it does anything.\<close>

definition active :: "mstate \<Rightarrow> data \<Rightarrow> bool" where
  "active st d =
     (case map_of (movementState st) (item_id (data_item d)) of
        None \<Rightarrow> False
      | Some m \<Rightarrow> moving m \<or> resizing m \<or> waiting m)"

text \<open>The nodes of the ghost proxies that the tracked items hold.\<close>

definition ghost_nodes :: "mstate \<Rightarrow> node list" where
  "ghost_nodes st =
     concat (map (\<lambda>km. case ghost (snd km) of None \<Rightarrow> [] | Some g \<Rightarrow> [ghost_node g])
               (movementState st))"

text \<open>
  What holds of every state the plugin builds: the table is a JavaScript object, so
  its keys are distinct; the child nodes of the timeline are distinct; and a ghost
  exists only when the \<open>ghostNode\<close> option is on (\<open>createGhost\<close> is the only place
  that makes one).
\<close>

definition consistent :: "Options \<Rightarrow> mstate \<Rightarrow> bool" where
  "consistent options st =
     (distinct (map fst (movementState st)) \<and> distinct (timeline_children st)
      \<and> (ghostNode options \<or> list_all (\<lambda>km. ghost (snd km) = None) (movementState st)))"

text \<open>Every ghost that a record holds is a child of the timeline, and two records
  never hold the same node (each ghost is a fresh clone).\<close>

definition ghosts_mounted :: "mstate \<Rightarrow> bool" where
  "ghosts_mounted st =
     (\<forall>km \<in> set (movementState st). \<forall>g. ghost (snd km) = Some g \<longrightarrow>
        ghost_node g \<in> set (timeline_children st)
        \<and> (\<forall>km' \<in> set (movementState st). \<forall>g'. ghost (snd km') = Some g' \<longrightarrow>
              ghost_node g' = ghost_node g \<longrightarrow> fst km' = fst km))"

text \<open>What one round of the loop of \<open>documentUp\<close> does to a record.\<close>

definition release :: "Options \<Rightarrow> Movement \<Rightarrow> Movement" where
  "release options m =
     (clear_flags m)\<lparr>ghost := (if ghostNode options then None else ghost m)\<rparr>"



section \<open>Example states\<close>

definition plain_item :: "ident \<Rightarrow> int \<Rightarrow> int \<Rightarrow> ident \<Rightarrow> item" where
  "plain_item i s e r =
     \<lparr> item_id = i, time_start = s, time_end = e, rowId = r, item_resizable = None,
       linkedWith = [], selected = False, item_snapStart = None, item_snapEnd = None \<rparr>"

definition plain_row :: "ident \<Rightarrow> item list \<Rightarrow> row" where
  "plain_row r its = \<lparr> row_id = r, row_resizable = None, row_items = its \<rparr>"

text \<open>Row \<open>R1\<close> holds \<open>I1\<close> at \<open>[100, 200]\<close> and \<open>I2\<close> at \<open>[240, 300]\<close>; the visible
  range is \<open>[0, 1000]\<close>, one time unit per pixel, and the timeline starts at pixel 0.
  \<open>I1\<close> has a movement record whose gesture origin has been captured.\<close>

definition example_state :: mstate where
  "example_state =
     \<lparr> chart_items = [''I1'' \<mapsto> plain_item ''I1'' 100 200 ''R1'',
                      ''I2'' \<mapsto> plain_item ''I2'' 240 300 ''R1''],
       list_rows = [''R1'' \<mapsto> plain_row ''R1''
                      [plain_item ''I1'' 100 200 ''R1'', plain_item ''I2'' 240 300 ''R1'']],
       time = \<lparr> time_from = 0, time_to = 1000, leftGlobal = 0, timePerPixel = 1 \<rparr>,
       plugin_item = None,
       plugin_movement = None,
       timeline_children = [],
       ganttRect_top = 0,
       ganttRect_left = 0,
       movementState = [(''I1'', fresh_movement\<lparr>ganttTop := Some 0, ganttLeft := Some 0\<rparr>)],
       next_node = 0 \<rparr>"

text \<open>A snap function that rounds the proposed time down to a multiple of 60.\<close>

definition snap_to_hour :: snap where
  "snap_to_hour t dl _ = ((t + dl) div 60) * 60"

text \<open>\<open>I1\<close> with its own snap functions, which round down to a multiple of 60, as the data
  of its instance and in the store.\<close>

definition hour_item :: item where
  "hour_item =
     (plain_item ''I1'' 100 200 ''R1'')
       \<lparr>item_snapStart := Some snap_to_hour, item_snapEnd := Some snap_to_hour\<rparr>"

definition hour_data :: data where
  "hour_data =
     \<lparr> data_item = hour_item,
       data_row = plain_row ''R1'' [hour_item, plain_item ''I2'' 240 300 ''R1''] \<rparr>"

definition hour_state :: mstate where
  "hour_state =
     example_state
       \<lparr> chart_items := [''I1'' \<mapsto> hour_item, ''I2'' \<mapsto> plain_item ''I2'' 240 300 ''R1''],
         list_rows := [''R1'' \<mapsto> plain_row ''R1''
                         [hour_item, plain_item ''I2'' 240 300 ''R1'']] \<rparr>"

definition example_data :: data where
  "example_data =
     \<lparr> data_item = plain_item ''I1'' 100 200 ''R1'',
       data_row = plain_row ''R1''
         [plain_item ''I1'' 100 200 ''R1'', plain_item ''I2'' 240 300 ''R1''] \<rparr>"

definition example_element :: element where
  "example_element = \<lparr> offsetTop = 0, marginTop = 0 \<rparr>"

definition pointer_at :: "int \<Rightarrow> int \<Rightarrow> pointer_event" where
  "pointer_at px py =
     \<lparr> ev_type = ''pointermove'', button = 0, clientX = px, clientY = py, ctrlKey = False \<rparr>"

text \<open>The interval of item \<open>k\<close> once a handler has returned; \<open>None\<close> when it threw.\<close>

definition interval_after :: "error + mstate \<Rightarrow> ident \<Rightarrow> (int \<times> int) option" where
  "interval_after r k =
     (case r of
        Inl _ \<Rightarrow> None
      | Inr st \<Rightarrow> map_option (\<lambda>i. (time_start i, time_end i)) (chart_items st k))"

text \<open>The plugin state when the pointer data reports a drag from \<open>p\<close> to \<open>q\<close>.\<close>

definition drag_between :: "sstate \<Rightarrow> Point \<Rightarrow> Point \<Rightarrow> sstate" where
  "drag_between st p q =
     st\<lparr>this_poitnerData := (this_poitnerData st)
          \<lparr>pointer_initialPosition := p, pointer_currentPosition := q\<rparr>\<rparr>"

text \<open>Items for the selection examples: a diamond of links \<open>A \<rightarrow> B, C\<close>; \<open>B \<rightarrow> D\<close>;
  \<open>C \<rightarrow> D\<close>, two unlinked selected items \<open>X\<close> and \<open>Y\<close>, \<open>L\<close> linked with itself, and
  an object with the same fields as \<open>D\<close> that is not in the store.\<close>

definition linked_item :: "ident \<Rightarrow> ident list \<Rightarrow> bool \<Rightarrow> item" where
  "linked_item i ls sel = (plain_item i 0 10 ''R1'')\<lparr>linkedWith := ls, selected := sel\<rparr>"

definition down_event :: "bool \<Rightarrow> pointer_event" where
  "down_event ctrl =
     \<lparr> ev_type = ''pointerdown'', button = 0, clientX = 10, clientY = 20, ctrlKey = ctrl \<rparr>"

definition diamond_A :: ref where "diamond_A = 0"

definition diamond_B :: ref where "diamond_B = 1"

definition diamond_C :: ref where "diamond_C = 2"

definition diamond_D :: ref where "diamond_D = 3"

definition selected_X :: ref where "selected_X = 4"

definition selected_Y :: ref where "selected_Y = 5"

definition looping_L :: ref where "looping_L = 6"

definition copy_of_D :: ref where "copy_of_D = 7"

definition example_objects :: "ref \<Rightarrow> item" where
  "example_objects r =
     (if r = diamond_A then linked_item ''A'' [''B'', ''C''] False
      else if r = diamond_B then linked_item ''B'' [''D''] False
      else if r = diamond_C then linked_item ''C'' [''D''] False
      else if r = diamond_D then linked_item ''D'' [] False
      else if r = selected_X then linked_item ''X'' [] True
      else if r = selected_Y then linked_item ''Y'' [] True
      else if r = looping_L then linked_item ''L'' [''L''] False
      else linked_item ''D'' [] False)"

definition diamond_items :: "(ident \<times> ref) list" where
  "diamond_items =
     [(''A'', diamond_A), (''B'', diamond_B), (''C'', diamond_C), (''D'', diamond_D)]"



definition selection_data :: PluginData where
  "selection_data =
     \<lparr> cells = True, items = True, isSelecting = False, pointerState = ''up'',
       targetType = NO_TARGET,
       initialPosition = \<lparr>point_x = 0, point_y = 0\<rparr>,
       currentPosition = \<lparr>point_x = 0, point_y = 0\<rparr>,
       selectionArea = \<lparr>area_x = 0, area_y = 0, area_width = 0, area_height = 0\<rparr>,
       selected_ITEM = [selected_X, selected_Y],
       events = \<lparr>events_down = None, events_move = None, events_up = None\<rparr> \<rparr>"

definition selection_example :: "ref \<Rightarrow> bool \<Rightarrow> sstate" where
  "selection_example target ctrl =
     \<lparr> chart_item_refs = diamond_items @ [(''X'', selected_X), (''Y'', selected_Y)],
       objects = example_objects,
       plugin_Selection = Some selection_data,
       this_data = selection_data,
       this_poitnerData =
         \<lparr> isMoving = True, pointer_targetType = ITEM, pointer_targetData = Some target,
           pointer_initialPosition = \<lparr>point_x = 10, point_y = 20\<rparr>,
           pointer_currentPosition = \<lparr>point_x = 4, point_y = 50\<rparr>,
           pointer_events = \<lparr>events_down = Some (down_event ctrl), events_move = None,
                               events_up = None\<rparr>,
           pointer_pointerState = ''move'' \<rparr>,
       notified = [] \<rparr>"

text \<open>A moving pointer on a cell, with cell selection enabled or not; \<open>X\<close> and \<open>Y\<close> are
  selected.\<close>

definition cell_drag :: "bool \<Rightarrow> sstate" where
  "cell_drag enabled =
     (selection_example selected_X False)
       \<lparr> this_data := selection_data\<lparr>cells := enabled\<rparr>,
         this_poitnerData := (this_poitnerData (selection_example selected_X False))
           \<lparr>pointer_targetType := CELL, pointer_targetData := None\<rparr> \<rparr>"

text \<open>The \<open>selected\<close> flag under each key of the store.\<close>

definition selected_flags :: "sstate \<Rightarrow> (ident \<times> bool) list" where
  "selected_flags st = map (\<lambda>kv. (fst kv, selected (snd kv))) (items_view st)"

text \<open>The flags of item \<open>k\<close> (moving, resizing, waiting, has a ghost) and the child
  nodes of the timeline once a handler has returned; \<open>None\<close> when it threw.\<close>

definition flags_after :: "error + mstate \<Rightarrow> ident \<Rightarrow> (bool \<times> bool \<times> bool \<times> bool) option" where
  "flags_after r k =
     (case r of
        Inl _ \<Rightarrow> None
      | Inr st \<Rightarrow>
          map_option (\<lambda>m. (moving m, resizing m, waiting m, ghost m \<noteq> None))
            (map_of (movementState st) k))"

definition children_after :: "error + mstate \<Rightarrow> node list option" where
  "children_after r = (case r of Inl _ \<Rightarrow> None | Inr st \<Rightarrow> Some (timeline_children st))"

text \<open>\<open>I1\<close> is being moved and \<open>I2\<close> is left waiting; both have a ghost in the
  timeline.\<close>

definition dragging_state :: mstate where
  "dragging_state =
     example_state
       \<lparr> timeline_children := [0, 1],
         movementState :=
           [(''I1'', fresh_movement
               \<lparr>moving := True, ghost := Some \<lparr>ghost_node = 0, ghost_left = 100, ghost_top = 0\<rparr>,
                itemTop := Some 0, ganttTop := Some 0, ganttLeft := Some 0\<rparr>),
            (''I2'', fresh_movement
               \<lparr>waiting := True, ghost := Some \<lparr>ghost_node = 1, ghost_left = 240, ghost_top = 0\<rparr>\<rparr>)],
         next_node := 2 \<rparr>"

text \<open>\<open>I2\<close> is the only tracked item; it is moving and has a ghost.\<close>

definition stuck_state :: mstate where
  "stuck_state =
     example_state
       \<lparr> timeline_children := [0],
         movementState :=
           [(''I2'', fresh_movement
               \<lparr>moving := True, ghost := Some \<lparr>ghost_node = 0, ghost_left = 240, ghost_top = 0\<rparr>\<rparr>)],
         next_node := 1 \<rparr>"

definition down_on_item :: pointer_event where
  "down_on_item =
     \<lparr> ev_type = ''pointerdown'', button = 0, clientX = 150, clientY = 10, ctrlKey = False \<rparr>"

definition up_event :: pointer_event where
  "up_event =
     \<lparr> ev_type = ''pointerup'', button = 0, clientX = 150, clientY = 10, ctrlKey = False \<rparr>"



section \<open>Results on the collision validator\<close>

lemma rowItems_collide_Cons:
  "rowItems_collide itemId s e (r # rs) =
     ((item_id r \<noteq> itemId \<and> overlaps_inclusive s e r) \<or> rowItems_collide itemId s e rs)"
  unfolding overlaps_inclusive_def rowItems_collide.simps if_bool_eq_conj by blast

lemma rowItems_collide_iff:
  "rowItems_collide itemId s e ris =
     (\<exists>other \<in> set ris. item_id other \<noteq> itemId \<and> overlaps_inclusive s e other)"
proof (induction ris)
  case Nil
  show ?case by simp
next
  case (Cons r rs)
  show ?case unfolding rowItems_collide_Cons Cons.IH by simp
qed

lemma abs_via_sgn: "(if sgn (d::int) = - 1 then - d else d) = \<bar>d\<bar>"
  by (auto simp: sgn_if abs_if)

text \<open>On every interval whose end is not more than one unit before its start, and a
  row that is in the store, the code computes the predicate as the specification
  words it.\<close>

lemma isCollision_as_stated:
  assumes "- 1 \<le> e - s" and "list_rows st r = Some row"
  shows "isCollision options st r i s e
           = Inr (collides_stated options (time st) (row_items row) i s e)"
proof -
  from assms(1) have w: "(\<bar>e - s\<bar> \<le> 1) = (e - s \<le> 1)" by linarith
  show ?thesis
    unfolding isCollision_def time_diff_def Let_def abs_via_sgn rowItems_collide_iff
      collides_stated_def list_ex_iff w
    using assms(2) by simp blast
qed

text \<open>
  C1, as the code has it. \<open>isCollision\<close> answers \<open>false\<close> at once when collision
  detection is off; otherwise \<open>true\<close> when out-of-border rejection is on and the
  interval leaves the visible range, \<open>true\<close> when the absolute value of the duration
  is at most one time unit, and otherwise \<open>true\<close> exactly when some other item of the
  row overlaps the interval under inclusive-boundary comparison. An interval whose
  end lies more than one unit before its start passes the duration guard.
\<close>

theorem isCollision_cases:
  "isCollision options st rowId' itemId s e =
     (if \<not> collisionDetection options then Inr False
      else if outOfBorders options \<and> (s < time_from (time st) \<or> e > time_to (time st)) then Inr True
      else if \<bar>e - s\<bar> \<le> 1 then Inr True
      else case list_rows st rowId' of
             None \<Rightarrow> Inl TypeError
           | Some row \<Rightarrow>
               Inr (\<exists>other \<in> set (row_items row).
                      item_id other \<noteq> itemId \<and> overlaps_inclusive s e other))"
  unfolding isCollision_def time_diff_def Let_def abs_via_sgn rowItems_collide_iff
  by (simp split: option.split)

theorem isCollision_cases_witness:
  "isCollision defaultOptions example_state ''R1'' ''I1'' 150 250 = Inr True"
  using isCollision_cases [of defaultOptions example_state "''R1''" "''I1''" 150 250]
  by (simp add: defaultOptions_def example_state_def plain_row_def plain_item_def
        overlaps_inclusive_def)

text \<open>The interval from 100 back to 50 has a negative width, so the specification's
  wording makes it a collision; the code lets it through.\<close>

theorem isCollision_negative_width_counterexample:
  "isCollision defaultOptions example_state ''R1'' ''I1'' 100 50
     \<noteq> Inr (collides_stated defaultOptions (time example_state)
               [plain_item ''I1'' 100 200 ''R1'', plain_item ''I2'' 240 300 ''R1''] ''I1'' 100 50)"
  by (simp add: isCollision_def time_diff_def collides_stated_def defaultOptions_def
        example_state_def plain_row_def plain_item_def overlaps_inclusive_def)

section \<open>Results on moving and resizing\<close>

lemma getMovement_existing:
  "map_of (movementState st) (item_id (data_item d)) = Some m \<Longrightarrow> getMovement d st = (m, st)"
  by (simp add: getMovement_def)

lemma getMovement_store:
  "getMovement d st = (m, st1) \<Longrightarrow>
     chart_items st1 = chart_items st \<and> list_rows st1 = list_rows st \<and> time st1 = time st"
  by (auto simp: getMovement_def Let_def split: option.splits)

lemma saveMovement_store:
  "chart_items (saveMovement k m st) = chart_items st"
  "list_rows (saveMovement k m st) = list_rows st"
  "time (saveMovement k m st) = time st"
  "movementState (saveMovement k m st) = movementState st"
  "timeline_children (saveMovement k m st) = timeline_children st"
  by (simp_all add: saveMovement_def)

lemma modify_movement_store:
  "chart_items (modify_movement k f st) = chart_items st"
  "list_rows (modify_movement k f st) = list_rows st"
  "time (modify_movement k f st) = time st"
  "timeline_children (modify_movement k f st) = timeline_children st"
  "movementState (modify_movement k f st) = AList.map_entry k f (movementState st)"
  by (simp_all add: modify_movement_def)

lemma moveGhost_store:
  assumes "moveGhost options el d ev st = Inr st2"
  shows "chart_items st2 = chart_items st" "list_rows st2 = list_rows st" "time st2 = time st"
proof -
  obtain m st1 where g: "getMovement d st = (m, st1)" by (cases "getMovement d st")
  note s1 = getMovement_store [OF g]
  from assms g s1 have "chart_items st2 = chart_items st \<and> list_rows st2 = list_rows st
      \<and> time st2 = time st"
    by (auto simp: moveGhost_def Let_def saveMovement_store modify_movement_store
          split: if_splits option.splits)
  then show "chart_items st2 = chart_items st" "list_rows st2 = list_rows st"
    "time st2 = time st" by simp_all
qed

lemma isCollision_store:
  "list_rows st' = list_rows st \<Longrightarrow> time st' = time st \<Longrightarrow>
     isCollision options st' r i s e = isCollision options st r i s e"
  by (simp only: isCollision_def)

lemma moveItem_own:
  assumes "chart_items st (item_id (data_item d)) = Some item"
  shows "moveItem options d (item_id (data_item d)) item finalAdd st =
     Inr (st\<lparr>chart_items := (chart_items st)(item_id (data_item d) \<mapsto>
            item\<lparr>time_start := time_start item + finalAdd,
                 time_end := getSnapEnd options d (time_end item) finalAdd
                               (item_data.truncate (item\<lparr>time_start := time_start item + finalAdd\<rparr>))
                             - 1\<rparr>)\<rparr>)"
  using assms by (simp add: moveItem_def deref_item_def Let_def)

lemma isCollision_False_width:
  "collisionDetection options \<Longrightarrow> isCollision options st r i s e = Inr False \<Longrightarrow> 1 < \<bar>e - s\<bar>"
  unfolding isCollision_def time_diff_def Let_def
  by (simp add: sgn_if abs_if split: if_splits)

text \<open>
  C4. An accepted move: when \<open>movementX\<close>, called as \<open>documentMove\<close> calls it (on the
  listener's own item and that item's current row), changes the item, then, with
  \<open>snapS\<close> and \<open>snapE\<close> the item's own snap functions where it has them and the
  default ones otherwise, and \<open>rawDelta\<close> the pointer-derived delta: the committed delta
  is \<open>snapS (S, rawDelta, item) - S\<close> for the current start \<open>S\<close>, it is not zero, the
  interval shifted by that delta passed the collision check against the row, the new
  start is \<open>S\<close> plus the delta, and the new end is
  \<open>snapEnd (currentEnd, delta, item) - 1\<close> (the end-snap function sees the item with
  its start already moved). No other item changes.
\<close>

theorem movementX_commit:
  assumes run: "movementX options el d ev rowRef itemRef timePerPixel' st = Inr st'"
    and ref: "itemRef = item_id (data_item d)"
    and item: "chart_items st itemRef = Some item"
    and row: "rowRef = rowId item" "list_rows st rowRef = Some row"
    and mv: "map_of (movementState st) itemRef = Some movement" "ganttLeft movement = Some gl"
    and accepted: "chart_items st' itemRef \<noteq> Some item"
    and snapS: "snapS = (case item_snapStart (data_item d) of
                           Some f \<Rightarrow> f | None \<Rightarrow> snapStart options)"
    and snapE: "snapE = (case item_snapEnd (data_item d) of
                           Some f \<Rightarrow> f | None \<Rightarrow> snapEnd options)"
    and raw: "rawDelta = leftGlobal (time st) + (clientX ev - gl) * timePerPixel'
                           - time_start item"
  shows "\<exists>delta.
           delta = snapS (time_start item) rawDelta (item_data.truncate item) - time_start item
           \<and> delta \<noteq> 0
           \<and> isCollision options st (row_id row) (item_id item)
                 (time_start item + delta) (time_end item + delta) = Inr False
           \<and> chart_items st' itemRef =
                Some (item\<lparr>time_start := time_start item + delta,
                          time_end := snapE (time_end item) delta
                                        (item_data.truncate
                                           (item\<lparr>time_start := time_start item + delta\<rparr>)) - 1\<rparr>)
           \<and> chart_items st' = (chart_items st)(itemRef := chart_items st' itemRef)"
proof -
  have gS: "getSnapStart options d = snapS" by (simp add: getSnapStart_def snapS)
  have gE: "getSnapEnd options d = snapE" by (simp add: getSnapEnd_def snapE)
  define delta where
    "delta = snapS (time_start item) rawDelta (item_data.truncate item) - time_start item"
  from mv(1) ref have g: "getMovement d st = (movement, st)"
    by (simp add: getMovement_existing)
  from run g obtain st2 where mg: "moveGhost options el d ev st = Inr st2"
    by (cases "moveGhost options el d ev st") (simp_all add: movementX_def)
  note s2 = moveGhost_store [OF mg]
  have col: "isCollision options st2 = isCollision options st"
    by (intro ext isCollision_store s2)
  from run have run':
    "(case isCollision options st (row_id row) (item_id item)
             (time_start item + delta) (time_end item + delta) of
        Inl e \<Rightarrow> Inl e
      | Inr collision \<Rightarrow>
          if delta \<noteq> 0 \<and> \<not> collision then moveItem options d itemRef item delta st2
          else Inr st2) = Inr st'"
    unfolding movementX_def delta_def raw
    by (simp add: g mg mv(2) s2 item row(2) col gS Let_def)
  then obtain c where c: "isCollision options st (row_id row) (item_id item)
             (time_start item + delta) (time_end item + delta) = Inr c"
    by (cases "isCollision options st (row_id row) (item_id item)
             (time_start item + delta) (time_end item + delta)") simp_all
  have commit: "delta \<noteq> 0 \<and> \<not> c"
  proof (rule ccontr)
    assume "\<not> (delta \<noteq> 0 \<and> \<not> c)"
    with run' c have "st' = st2" by auto
    with s2 item accepted show False by simp
  qed
  with run' c have mi: "moveItem options d (item_id (data_item d)) item delta st2 = Inr st'"
    using ref by simp
  have own: "chart_items st2 (item_id (data_item d)) = Some item"
    using s2 item ref by simp
  have st': "st' = st2\<lparr>chart_items := (chart_items st2)(item_id (data_item d) \<mapsto>
            item\<lparr>time_start := time_start item + delta,
                 time_end := snapE (time_end item) delta
                               (item_data.truncate (item\<lparr>time_start := time_start item + delta\<rparr>))
                             - 1\<rparr>)\<rparr>"
    using mi unfolding moveItem_own [OF own] gE by simp
  then have final: "chart_items st' itemRef =
      Some (item\<lparr>time_start := time_start item + delta,
                time_end := snapE (time_end item) delta
                              (item_data.truncate (item\<lparr>time_start := time_start item + delta\<rparr>)) - 1\<rparr>)"
    using ref by simp
  have others: "chart_items st' = (chart_items st)(itemRef := chart_items st' itemRef)"
    using ref s2(1) by (simp add: st')
  show ?thesis
  proof (intro exI conjI)
    show "delta = snapS (time_start item) rawDelta (item_data.truncate item) - time_start item"
      by (fact delta_def)
    show "delta \<noteq> 0" using commit by simp
    show "isCollision options st (row_id row) (item_id item)
                 (time_start item + delta) (time_end item + delta) = Inr False"
      using c commit by simp
    show "chart_items st' itemRef =
      Some (item\<lparr>time_start := time_start item + delta,
                time_end := snapE (time_end item) delta
                              (item_data.truncate (item\<lparr>time_start := time_start item + delta\<rparr>)) - 1\<rparr>)"
      by (fact final)
    show "chart_items st' = (chart_items st)(itemRef := chart_items st' itemRef)"
      by (fact others)
  qed
qed

lemma resizeItem_own:
  assumes "chart_items st (item_id (data_item d)) = Some item"
  shows "resizeItem options d (item_id (data_item d)) item finalAdd st =
     Inr (st\<lparr>chart_items := (chart_items st)(item_id (data_item d) \<mapsto>
            item\<lparr>time_start := getSnapStart options d (time_start item) 0 (item_data.truncate item),
                 time_end := getSnapEnd options d (time_end item) finalAdd
                    (item_data.truncate
                       (item\<lparr>time_start :=
                               getSnapStart options d (time_start item) 0 (item_data.truncate item)\<rparr>))
                    - 1\<rparr>)\<rparr>)"
  using assms by (simp add: resizeItem_def deref_item_def Let_def)

lemma resize_order:
  fixes s e add finalEnd e' s' :: int
  assumes guard: "\<not> e + add < s"
    and fe: "e + add - 1 \<le> finalEnd"
    and wide: "1 < \<bar>finalEnd - s\<bar>"
    and e': "finalEnd - 1 \<le> e'"
    and s': "s' \<le> s"
  shows "s' < e'"
  using assms by linarith

text \<open>
  C2, as the code has it. \<open>snapS\<close> and \<open>snapE\<close> are the item's own snap functions
  where it has them and the default ones otherwise, and \<open>add\<close> is the pointer-derived
  change of the end. A resize whose raw proposal puts the end before the start
  (\<open>end + add < start\<close>) changes nothing, whatever the options and the snap functions.
  With collision detection enabled and snap functions that never place the end before
  the proposed time (\<open>t + d \<le> snapE (t, d, item)\<close>) nor the start after the current
  start (\<open>snapS (s, 0, item) \<le> s\<close>), as the default snap functions do, every resize
  that changes the items leaves \<open>start < end\<close>.
\<close>

theorem resizeX_keeps_order:
  assumes run: "resizeX options d ev rowRef itemRef timePerPixel' st = Inr st'"
    and ref: "itemRef = item_id (data_item d)"
    and item: "chart_items st itemRef = Some item"
    and mv: "map_of (movementState st) itemRef = Some movement" "ganttLeft movement = Some gl"
    and snapS: "snapS = (case item_snapStart (data_item d) of
                           Some f \<Rightarrow> f | None \<Rightarrow> snapStart options)"
    and snapE: "snapE = (case item_snapEnd (data_item d) of
                           Some f \<Rightarrow> f | None \<Rightarrow> snapEnd options)"
    and raw: "add = leftGlobal (time st) + (clientX ev - gl) * timePerPixel' - time_end item"
  shows "(time_end item + add < time_start item \<longrightarrow> st' = st)
         \<and> (collisionDetection options
              \<and> (\<forall>t dl i. t + dl \<le> snapE t dl i) \<and> (\<forall>t i. snapS t 0 i \<le> t)
             \<longrightarrow> chart_items st' = chart_items st
                 \<or> (\<exists>item'. chart_items st' itemRef = Some item'
                        \<and> time_start item' < time_end item'))"
proof (cases "isResizable options d")
  case False
  with run have "st' = st" by (simp add: resizeX_def)
  then show ?thesis by simp
next
  case True
  have gS: "getSnapStart options d = snapS" by (simp add: getSnapStart_def snapS)
  have gE: "getSnapEnd options d = snapE" by (simp add: getSnapEnd_def snapE)
  define finalEnd where
    "finalEnd = snapE (time_end item) add (item_data.truncate item) - 1"
  define finalAdd where "finalAdd = finalEnd - time_end item"
  from mv(1) ref have g: "getMovement d st = (movement, st)"
    by (simp add: getMovement_existing)
  show ?thesis
  proof (cases "time_end item + add < time_start item")
    case guard: True
    with run True have "st' = st"
      unfolding resizeX_def raw by (simp add: g mv(2) item Let_def)
    then show ?thesis by simp
  next
    case guard: False
    from run True guard obtain row where row: "list_rows st rowRef = Some row"
      unfolding resizeX_def raw
      by (cases "list_rows st rowRef") (simp_all add: g mv(2) item Let_def)
    from run True guard have run':
      "(case isCollision options st (row_id row) (item_id item)
               (time_start item) (time_end item + finalAdd) of
          Inl e \<Rightarrow> Inl e
        | Inr collision \<Rightarrow>
            if finalAdd \<noteq> 0 \<and> \<not> collision then resizeItem options d itemRef item finalAdd st
            else Inr st) = Inr st'"
      unfolding resizeX_def raw finalEnd_def finalAdd_def
      by (simp add: g mv(2) item row gE Let_def)
    then obtain c where c: "isCollision options st (row_id row) (item_id item)
               (time_start item) (time_end item + finalAdd) = Inr c"
      by (cases "isCollision options st (row_id row) (item_id item)
               (time_start item) (time_end item + finalAdd)") simp_all
    show ?thesis
    proof (cases "finalAdd \<noteq> 0 \<and> \<not> c")
      case False
      with run' c have "st' = st" by (simp split: if_splits)
      then show ?thesis by simp
    next
      case commit: True
      with run' c have ri: "resizeItem options d (item_id (data_item d)) item finalAdd st = Inr st'"
        using ref by simp
      have own: "chart_items st (item_id (data_item d)) = Some item"
        using item ref by simp
      define s' where "s' = snapS (time_start item) 0 (item_data.truncate item)"
      define e' where "e' = snapE (time_end item) finalAdd
                    (item_data.truncate (item\<lparr>time_start := s'\<rparr>)) - 1"
      have st': "st' = st\<lparr>chart_items := (chart_items st)(item_id (data_item d) \<mapsto>
            item\<lparr>time_start := s', time_end := e'\<rparr>)\<rparr>"
        using ri unfolding resizeItem_own [OF own] s'_def e'_def gS gE by simp
      have ordered: "\<exists>item'. chart_items st' itemRef = Some item'
                        \<and> time_start item' < time_end item'"
        if cd: "collisionDetection options"
          and sE: "\<forall>t dl i. t + dl \<le> snapE t dl i" and sS: "\<forall>t i. snapS t 0 i \<le> t"
      proof -
        from commit c cd have wide: "1 < \<bar>time_end item + finalAdd - time_start item\<bar>"
          using isCollision_False_width by simp
        have fe: "time_end item + add - 1 \<le> finalEnd"
          using sE [rule_format, of "time_end item" add "item_data.truncate item"]
          unfolding finalEnd_def by linarith
        have e'_ge: "finalEnd - 1 \<le> e'"
          using sE [rule_format, of "time_end item" finalAdd
                         "item_data.truncate (item\<lparr>time_start := s'\<rparr>)"]
          unfolding e'_def finalAdd_def by linarith
        have s'_le: "s' \<le> time_start item"
          using sS [rule_format, of "time_start item" "item_data.truncate item"]
          unfolding s'_def by linarith
        have wide': "1 < \<bar>finalEnd - time_start item\<bar>"
          using wide unfolding finalAdd_def by simp
        have "s' < e'"
          by (rule resize_order [OF guard fe wide' e'_ge s'_le])
        then show ?thesis using ref by (simp add: st')
      qed
      from guard ordered show ?thesis by blast
    qed
  qed
qed

lemma interval_afterD:
  "interval_after r k = Some p \<Longrightarrow>
     \<exists>st' it. r = Inr st' \<and> chart_items st' k = Some it \<and> p = (time_start it, time_end it)"
  by (cases r) (auto simp: interval_after_def)

lemmas movement_eval =
  movementX_def resizeX_def isResizable_def getMovement_def moveGhost_def isCollision_def
  time_diff_def moveItem_def resizeItem_def deref_item_def getSnapStart_def getSnapEnd_def
  defaultOptions_def example_state_def example_data_def pointer_at_def plain_item_def
  plain_row_def fresh_movement_def Let_def item_data.defs interval_after_def snap_to_hour_def

lemma example_facts:
  "''I1'' = item_id (data_item example_data)"
  "chart_items example_state ''I1'' = Some (plain_item ''I1'' 100 200 ''R1'')"
  "''R1'' = rowId (plain_item ''I1'' 100 200 ''R1'')"
  "list_rows example_state ''R1'' = Some (plain_row ''R1''
     [plain_item ''I1'' 100 200 ''R1'', plain_item ''I2'' 240 300 ''R1''])"
  "map_of (movementState example_state) ''I1''
     = Some (fresh_movement\<lparr>ganttTop := Some 0, ganttLeft := Some 0\<rparr>)"
  "ganttLeft (fresh_movement\<lparr>ganttTop := Some 0, ganttLeft := Some 0\<rparr>) = Some 0"
  by (simp_all add: example_state_def example_data_def plain_item_def)

lemma hour_facts:
  "''I1'' = item_id (data_item hour_data)"
  "chart_items hour_state ''I1'' = Some hour_item"
  "''R1'' = rowId hour_item"
  "list_rows hour_state ''R1'' = Some (plain_row ''R1''
     [hour_item, plain_item ''I2'' 240 300 ''R1''])"
  "map_of (movementState hour_state) ''I1''
     = Some (fresh_movement\<lparr>ganttTop := Some 0, ganttLeft := Some 0\<rparr>)"
  "ganttLeft (fresh_movement\<lparr>ganttTop := Some 0, ganttLeft := Some 0\<rparr>) = Some 0"
  by (simp_all add: hour_state_def hour_data_def hour_item_def example_state_def plain_item_def)

text \<open>\<open>I1 = [100, 200]\<close> snaps to multiples of 60 by its own snap functions. The pointer
  at time 130 gives the raw delta 30; the committed delta is 20, the interval
  \<open>[120, 220]\<close> passes the collision check, and \<open>[120, 179]\<close> is committed.\<close>

theorem movementX_commit_witness:
  "item_snapStart (data_item hour_data) = Some snap_to_hour
   \<and> item_snapEnd (data_item hour_data) = Some snap_to_hour
   \<and> interval_after (Inr hour_state) ''I1'' = Some (100, 200)
   \<and> leftGlobal (time hour_state) + (clientX (pointer_at 130 0) - 0) * 1 - 100 = 30
   \<and> snap_to_hour 100 30 (item_data.truncate hour_item) - 100 = 20
   \<and> isCollision (defaultOptions\<lparr>ghostNode := False\<rparr>) hour_state ''R1'' ''I1'' 120 220
       = Inr False
   \<and> snap_to_hour 200 20 (item_data.truncate (hour_item\<lparr>time_start := 120\<rparr>)) - 1 = 179
   \<and> interval_after
        (movementX (defaultOptions\<lparr>ghostNode := False\<rparr>) example_element hour_data
           (pointer_at 130 0) ''R1'' ''I1'' 1 hour_state) ''I1''
       = Some (120, 179)"
proof -
  let ?o = "defaultOptions\<lparr>ghostNode := False\<rparr>"
  let ?r = "movementX ?o example_element hour_data (pointer_at 130 0) ''R1'' ''I1'' 1 hour_state"
  have iv: "interval_after ?r ''I1'' = Some (120, 179)"
    by (simp add: movement_eval hour_state_def hour_data_def hour_item_def)
  from interval_afterD [OF iv] obtain st' it where
    r: "?r = Inr st'" and it: "chart_items st' ''I1'' = Some it" "time_start it = 120"
    by auto
  from it have a: "chart_items st' ''I1'' \<noteq> Some hour_item"
    by (auto simp: hour_item_def plain_item_def)
  have sS: "snap_to_hour = (case item_snapStart (data_item hour_data) of
                              Some f \<Rightarrow> f | None \<Rightarrow> snapStart ?o)"
    and sE: "snap_to_hour = (case item_snapEnd (data_item hour_data) of
                              Some f \<Rightarrow> f | None \<Rightarrow> snapEnd ?o)"
    by (simp_all add: hour_data_def hour_item_def)
  have raw: "30 = leftGlobal (time hour_state) + (clientX (pointer_at 130 0) - 0) * 1
                    - time_start hour_item"
    by (simp add: hour_state_def example_state_def pointer_at_def hour_item_def plain_item_def)
  have d: "snap_to_hour 100 30 (item_data.truncate hour_item) - 100 = 20"
    by (simp add: snap_to_hour_def)
  from movementX_commit [OF r hour_facts a sS sE raw]
  have "isCollision ?o hour_state (row_id (plain_row ''R1''
           [hour_item, plain_item ''I2'' 240 300 ''R1''])) (item_id hour_item)
          (time_start hour_item + 20) (time_end hour_item + 20) = Inr False"
    by (simp add: snap_to_hour_def hour_item_def plain_item_def)
  then have col: "isCollision ?o hour_state ''R1'' ''I1'' 120 220 = Inr False"
    by (simp add: hour_item_def plain_item_def plain_row_def)
  have "interval_after (Inr hour_state) ''I1'' = Some (100, 200)"
    by (simp add: interval_after_def hour_state_def hour_item_def plain_item_def)
  moreover have "snap_to_hour 200 20 (item_data.truncate (hour_item\<lparr>time_start := 120\<rparr>)) - 1 = 179"
    by (simp add: snap_to_hour_def)
  moreover have "leftGlobal (time hour_state) + (clientX (pointer_at 130 0) - 0) * 1 - 100 = 30"
    by (simp add: hour_state_def example_state_def pointer_at_def)
  ultimately show ?thesis using iv col d
    by (simp add: hour_data_def hour_item_def)
qed

text \<open>Resizing \<open>I1\<close> from \<open>[100, 200]\<close> to pointer time 180 commits \<open>[100, 178]\<close>. With
  the pointer at time 99, before the start, nothing changes, even without collision
  detection and with an end-snap function that rounds down.\<close>

theorem resizeX_keeps_order_witness:
  "collisionDetection defaultOptions
   \<and> (\<forall>t dl i. t + dl \<le> snapEnd defaultOptions t dl i)
   \<and> (\<forall>t i. snapStart defaultOptions t 0 i \<le> t)
   \<and> interval_after
        (resizeX defaultOptions example_data (pointer_at 180 0) ''R1'' ''I1'' 1 example_state) ''I1''
       = Some (100, 178)
   \<and> resizeX (defaultOptions\<lparr>collisionDetection := False, snapEnd := snap_to_hour\<rparr>)
        example_data (pointer_at 99 0) ''R1'' ''I1'' 1 example_state
       = Inr example_state"
proof -
  let ?r = "resizeX defaultOptions example_data (pointer_at 180 0) ''R1'' ''I1'' 1 example_state"
  let ?o = "defaultOptions\<lparr>collisionDetection := False, snapEnd := snap_to_hour\<rparr>"
  let ?g = "resizeX ?o example_data (pointer_at 99 0) ''R1'' ''I1'' 1 example_state"
  have iv: "interval_after ?r ''I1'' = Some (100, 178)"
    by (simp add: movement_eval)
  from interval_afterD [OF iv] obtain st' where r: "?r = Inr st'" by auto
  have cd: "collisionDetection defaultOptions" by (simp add: defaultOptions_def)
  have sE: "\<forall>t dl i. t + dl \<le> snapEnd defaultOptions t dl i"
    by (simp add: defaultOptions_def)
  have sS: "\<forall>t i. snapStart defaultOptions t 0 i \<le> t"
    by (simp add: defaultOptions_def)
  have dS: "snapStart defaultOptions = (case item_snapStart (data_item example_data) of
                              Some f \<Rightarrow> f | None \<Rightarrow> snapStart defaultOptions)"
    and dE: "snapEnd defaultOptions = (case item_snapEnd (data_item example_data) of
                              Some f \<Rightarrow> f | None \<Rightarrow> snapEnd defaultOptions)"
    by (simp_all add: example_data_def plain_item_def)
  have raw: "- 20 = leftGlobal (time example_state) + (clientX (pointer_at 180 0) - 0) * 1
                    - time_end (plain_item ''I1'' 100 200 ''R1'')"
    by (simp add: example_state_def pointer_at_def plain_item_def)
  from resizeX_keeps_order [OF r example_facts(1,2,5,6) dS dE raw] cd sE sS
  have "chart_items st' = chart_items example_state
         \<or> (\<exists>item'. chart_items st' ''I1'' = Some item' \<and> time_start item' < time_end item')"
    by blast
  obtain st2 where g: "?g = Inr st2"
    by (cases ?g) (simp_all add: movement_eval)
  have oS: "snapStart ?o = (case item_snapStart (data_item example_data) of
                              Some f \<Rightarrow> f | None \<Rightarrow> snapStart ?o)"
    and oE: "snap_to_hour = (case item_snapEnd (data_item example_data) of
                              Some f \<Rightarrow> f | None \<Rightarrow> snapEnd ?o)"
    by (simp_all add: example_data_def plain_item_def)
  have raw2: "- 101 = leftGlobal (time example_state) + (clientX (pointer_at 99 0) - 0) * 1
                    - time_end (plain_item ''I1'' 100 200 ''R1'')"
    by (simp add: example_state_def pointer_at_def plain_item_def)
  from resizeX_keeps_order [OF g example_facts(1,2,5,6) oS oE raw2]
  have "st2 = example_state" by (simp add: plain_item_def)
  with g cd sE sS iv show ?thesis by simp
qed

text \<open>
  With collision detection switched off, the default snap functions and the pointer
  at time 100, the resize of \<open>I1 = [100, 200]\<close> commits \<open>[100, 98]\<close>: the duration
  guard sits inside \<open>isCollision\<close>. With collision detection on and an end-snap
  function that rounds down to the hour, the pointer at time 130 commits
  \<open>[100, 59]\<close>: the checked end 119 is not the committed one.
\<close>

theorem resizeX_inverts_counterexample:
  "interval_after
     (resizeX (defaultOptions\<lparr>collisionDetection := False\<rparr>) example_data (pointer_at 100 0)
        ''R1'' ''I1'' 1 example_state) ''I1''
     = Some (100, 98)
   \<and> interval_after
       (resizeX (defaultOptions\<lparr>snapEnd := snap_to_hour\<rparr>) example_data (pointer_at 130 0)
          ''R1'' ''I1'' 1 example_state) ''I1''
     = Some (100, 59)"
  by (simp add: movement_eval)

section \<open>Results on the selection engine\<close>

lemmas example_items =
  diamond_items_def diamond_A_def diamond_B_def diamond_C_def diamond_D_def
  selected_X_def selected_Y_def looping_L_def copy_of_D_def example_objects_def
  linked_item_def plain_item_def

text \<open>
  C9. The selection rectangle of a drag between \<open>p\<close> and \<open>q\<close> has \<open>x = min p.x q.x\<close>,
  \<open>y = min p.y q.y\<close>, \<open>width = |p.x - q.x|\<close> and \<open>height = |p.y - q.y|\<close>; it is the same
  for the drag from \<open>q\<close> to \<open>p\<close>, and its width and height are never negative.
\<close>

theorem getSelectionArea_normalised:
  "getSelectionArea (drag_between st p q) =
      \<lparr> area_x = min (point_x p) (point_x q), area_y = min (point_y p) (point_y q),
        area_width = \<bar>point_x p - point_x q\<bar>, area_height = \<bar>point_y p - point_y q\<bar> \<rparr>
   \<and> getSelectionArea (drag_between st q p) = getSelectionArea (drag_between st p q)
   \<and> 0 \<le> area_width (getSelectionArea (drag_between st p q))
   \<and> 0 \<le> area_height (getSelectionArea (drag_between st p q))"
proof -
  have eq: "getSelectionArea (drag_between st a b) =
      \<lparr> area_x = min (point_x a) (point_x b), area_y = min (point_y a) (point_y b),
        area_width = \<bar>point_x a - point_x b\<bar>, area_height = \<bar>point_y a - point_y b\<bar> \<rparr>" for a b
    by (simp add: getSelectionArea_def drag_between_def Let_def min_def abs_if)
  show ?thesis
    unfolding eq by (simp add: min.commute abs_minus_commute)
qed

lemma fold_set_selected:
  "fold (set_selected b) rs h r = (if r \<in> set rs then (h r)\<lparr>selected := b\<rparr> else h r)"
  by (induction rs arbitrary: h) (auto simp: set_selected_def)

lemma selectCells_effect:
  "objects (selectCells st) = fold (set_selected False) (map snd (chart_item_refs st)) (objects st)"
  "chart_item_refs (selectCells st) = chart_item_refs st"
  "selected_ITEM (this_data (selectCells st)) = []"
  by (simp_all add: selectCells_def getItemsUnderSelectionArea_def state_update_def notify_def
        Let_def)

text \<open>
  C10, as the code has it. The items under the selection area are always computed as
  the empty list. When the pointer data reports a moving pointer on a cell,
  \<open>onPointerData\<close> returns and publishes the plugin data; with cell selection enabled
  (\<open>data.cells\<close>) it runs \<open>selectCells\<close>, which empties the selected items and leaves
  every item object of the store with \<open>selected = false\<close>; with cell selection disabled
  it runs no handler and leaves the selected items and every item object as they were.
\<close>

theorem onPointerData_cell_drag:
  assumes "isMoving (this_poitnerData st)"
    and "pointer_targetType (this_poitnerData st) = CELL"
  shows "getItemsUnderSelectionArea st = []
    \<and> (\<exists>st'. onPointerData stack st = Inr st'
          \<and> chart_item_refs st' = chart_item_refs st
          \<and> plugin_Selection st' = Some (this_data st')
          \<and> (if cells (this_data st)
              then selected_ITEM (this_data st') = []
                   \<and> (\<forall>kr \<in> set (chart_item_refs st). \<not> selected (objects st' (snd kr)))
              else selected_ITEM (this_data st') = selected_ITEM (this_data st)
                   \<and> objects st' = objects st))"
proof (cases "cells (this_data st)")
  case True
  let ?st' = "updateData ((selectCells st)\<lparr>this_data := (this_data (selectCells st))
                    \<lparr>events := pointer_events (this_poitnerData st),
                     pointerState := pointer_pointerState (this_poitnerData st),
                     targetType := pointer_targetType (this_poitnerData st)\<rparr>\<rparr>)"
  have r: "onPointerData stack st = Inr ?st'"
    using assms True by (simp add: onPointerData_def Let_def)
  have o: "objects ?st' = fold (set_selected False) (map snd (chart_item_refs st)) (objects st)"
    by (simp add: updateData_def selectCells_effect)
  have "\<not> selected (objects ?st' (snd kr))" if "kr \<in> set (chart_item_refs st)" for kr
    unfolding o fold_set_selected using that by simp
  moreover have "chart_item_refs ?st' = chart_item_refs st"
    "plugin_Selection ?st' = Some (this_data ?st')"
    "selected_ITEM (this_data ?st') = []"
    by (simp_all add: updateData_def selectCells_effect)
  ultimately show ?thesis
    using r True by (simp add: getItemsUnderSelectionArea_def)
next
  case False
  then show ?thesis
    using assms by (simp add: onPointerData_def Let_def updateData_def getItemsUnderSelectionArea_def)
qed

lemmas selection_eval =
  onPointerData_def selectCells_def selectItems_def getSelected_def getSelectionArea_def
  getItemsUnderSelectionArea_def updateData_def state_update_def multi_done_def notify_def
  items_view_def selected_flags_def set_selected_def Set_values_def
  selection_example_def selection_data_def cell_drag_def down_event_def Let_def

text \<open>With cell selection enabled, a cell drag deselects the selected \<open>X\<close> and \<open>Y\<close>.\<close>

theorem onPointerData_cell_drag_witness:
  "isMoving (this_poitnerData (cell_drag True))
   \<and> pointer_targetType (this_poitnerData (cell_drag True)) = CELL
   \<and> cells (this_data (cell_drag True))
   \<and> selected_flags (cell_drag True)
       = [(''A'', False), (''B'', False), (''C'', False), (''D'', False), (''X'', True), (''Y'', True)]
   \<and> onPointerData 3 (cell_drag True) = Inr (projr (onPointerData 3 (cell_drag True)))
   \<and> selected_flags (projr (onPointerData 3 (cell_drag True)))
       = [(''A'', False), (''B'', False), (''C'', False), (''D'', False), (''X'', False), (''Y'', False)]
   \<and> selected_ITEM (this_data (projr (onPointerData 3 (cell_drag True)))) = []"
  using onPointerData_cell_drag [of "cell_drag True" 3]
  by (simp add: selection_eval example_items)

text \<open>With cell selection disabled (\<open>cells = false\<close>) a cell drag leaves \<open>X\<close> and \<open>Y\<close>
  selected, in the store and in the selected items.\<close>

theorem onPointerData_cells_off_counterexample:
  "isMoving (this_poitnerData (cell_drag False))
   \<and> pointer_targetType (this_poitnerData (cell_drag False)) = CELL
   \<and> getItemsUnderSelectionArea (cell_drag False) = []
   \<and> onPointerData 3 (cell_drag False) = Inr (projr (onPointerData 3 (cell_drag False)))
   \<and> selected_flags (projr (onPointerData 3 (cell_drag False)))
       = [(''A'', False), (''B'', False), (''C'', False), (''D'', False), (''X'', True), (''Y'', True)]
   \<and> selected_ITEM (this_data (projr (onPointerData 3 (cell_drag False))))
       = [selected_X, selected_Y]"
  by (simp add: selection_eval example_items)

lemma apply_update_selected_at:
  "apply_update its (Update_selected a b) h r =
     (if map_of its a = Some r then (h r)\<lparr>selected := b\<rparr> else h r)"
  by (cases "map_of its a") (simp_all add: set_selected_def)

lemma fold_select_at:
  "fold (apply_update its) (map (\<lambda>s. Update_selected (f s) True) sel) h r =
     (if \<exists>s \<in> set sel. map_of its (f s) = Some r then (h r)\<lparr>selected := True\<rparr> else h r)"
proof (induction sel arbitrary: h)
  case Nil
  show ?case by simp
next
  case (Cons a sel)
  show ?case
    by (simp add: Cons.IH apply_update_selected_at del: apply_update.simps)
qed

lemma multi_done_effect:
  "objects (multi_done us st) = fold (apply_update (chart_item_refs st)) us (objects st)"
  "chart_item_refs (multi_done us st) = chart_item_refs st"
  "notified (multi_done us st) = notified st @ [items_view (multi_done us st)]"
  "this_data (multi_done us st) = this_data st"
  by (simp_all add: multi_done_def notify_def items_view_def)

lemma map_of_unaliased:
  assumes "distinct (map fst its)" "distinct (map snd its)" "(k, r) \<in> set its"
  shows "map_of its k' = Some r \<longleftrightarrow> k' = k"
proof
  assume "map_of its k' = Some r"
  then have "(k', r) \<in> set its" by (rule map_of_SomeD)
  with assms(2,3) show "k' = k"
    by (metis distinct_map inj_on_def snd_conv fst_conv)
next
  assume "k' = k"
  with assms(1,3) show "map_of its k' = Some r" by simp
qed

text \<open>
  C8. After an item-selection commit the store holds the same item objects, and an
  item object of the store has \<open>selected = true\<close> exactly when it is the object stored
  under the id of an item of the new selection. When no key is listed twice and no two
  keys share an object, the item under key \<open>k\<close> is selected exactly when \<open>k\<close> is the
  id of an item of the new selection. The store's subscribers have been shown one new
  value of the items, the final one: the clearing of all flags and the setting of the
  selected ones are one multi-update.
\<close>

theorem selectItems_commit:
  assumes "selectItems stack st = Inr st'"
  shows "chart_item_refs st' = chart_item_refs st
     \<and> (\<forall>kr \<in> set (chart_item_refs st).
           selected (objects st' (snd kr)) \<longleftrightarrow>
             (\<exists>s \<in> set (selected_ITEM (this_data st')).
                 map_of (chart_item_refs st) (item_id (objects st' s)) = Some (snd kr)))
     \<and> (distinct (map fst (chart_item_refs st)) \<and> distinct (map snd (chart_item_refs st)) \<longrightarrow>
          (\<forall>kr \<in> set (chart_item_refs st).
             selected (objects st' (snd kr)) \<longleftrightarrow>
               fst kr \<in> (\<lambda>s. item_id (objects st' s)) ` set (selected_ITEM (this_data st'))))
     \<and> notified st' = notified st @ [items_view st']"
proof -
  from assms obtain sel st1 where
    st': "st' = multi_done (Update_all_selected False
                  # map (\<lambda>item. Update_selected (item_id (objects st item)) True) sel) st1"
    and st1: "chart_item_refs st1 = chart_item_refs st" "objects st1 = objects st"
             "notified st1 = notified st" "selected_ITEM (this_data st1) = sel"
    by (auto simp: selectItems_def Let_def split: option.splits sum.splits)
  let ?its = "chart_item_refs st"
  have sel: "selected_ITEM (this_data st') = sel"
    by (simp add: st' multi_done_effect st1)
  have refs: "chart_item_refs st' = ?its"
    by (simp add: st' multi_done_effect st1)
  have obj: "objects st' r =
      (if \<exists>s \<in> set sel. map_of ?its (item_id (objects st s)) = Some r
       then (if r \<in> snd ` set ?its then (objects st r)\<lparr>selected := False\<rparr> else objects st r)
              \<lparr>selected := True\<rparr>
       else (if r \<in> snd ` set ?its then (objects st r)\<lparr>selected := False\<rparr> else objects st r))"
    for r
    by (simp add: st' multi_done_effect st1 fold_select_at fold_set_selected
          del: apply_update.simps)
       (simp add: fold_set_selected)
  have ids: "item_id (objects st' r) = item_id (objects st r)" for r
    unfolding obj by simp
  have flag: "selected (objects st' (snd kr)) \<longleftrightarrow>
      (\<exists>s \<in> set sel. map_of ?its (item_id (objects st' s)) = Some (snd kr))"
    if "kr \<in> set ?its" for kr
    unfolding ids using that by (simp add: obj)
  have key: "selected (objects st' (snd kr)) \<longleftrightarrow>
      fst kr \<in> (\<lambda>s. item_id (objects st' s)) ` set sel"
    if d: "distinct (map fst ?its)" "distinct (map snd ?its)" and kr: "kr \<in> set ?its" for kr
  proof -
    from kr have "(fst kr, snd kr) \<in> set ?its" by simp
    from map_of_unaliased [OF d this]
    have "map_of ?its k' = Some (snd kr) \<longleftrightarrow> k' = fst kr" for k' .
    then have "(\<exists>s \<in> set sel. map_of ?its (item_id (objects st' s)) = Some (snd kr))
        \<longleftrightarrow> (\<exists>s \<in> set sel. item_id (objects st' s) = fst kr)"
      by simp
    also have "\<dots> \<longleftrightarrow> fst kr \<in> (\<lambda>s. item_id (objects st' s)) ` set sel"
      by force
    finally show ?thesis unfolding flag [OF kr] .
  qed
  have note': "notified st' = notified st @ [items_view st']"
    by (simp add: st' multi_done_effect st1)
  show ?thesis
    unfolding sel using refs flag key note' by blast
qed







lemma link_paths_nonempty: "[] \<notin> set (link_paths n h its a)"
  by (cases n) (auto split: option.splits)

lemma map_last_Cons:
  "[] \<notin> set ps \<Longrightarrow> map last (map ((#) b) ps) = map last ps"
  by (induction ps) auto

lemma map_last_Cons_paths:
  "map last (map ((#) b) (link_paths n h its a)) = map last (link_paths n h its a)"
  using link_paths_nonempty by (rule map_last_Cons)












lemma collectLinkedItems_loop_member:
  "collectLinkedItems_loop n h its ls cur = Inr res \<Longrightarrow> l \<in> set ls \<Longrightarrow> map_of its l = Some b \<Longrightarrow>
     \<exists>cur' res'. collectLinkedItems n h its b cur' = Inr res'"
proof (induction ls arbitrary: cur)
  case Nil
  then show ?case by simp
next
  case (Cons a ls)
  from Cons.prems(1) obtain x cur1 where
    x: "map_of its a = Some x" "collectLinkedItems n h its x (cur @ [x]) = Inr cur1"
       "collectLinkedItems_loop n h its ls cur1 = Inr res"
    by (auto split: option.splits sum.splits)
  show ?case
  proof (cases "l = a")
    case True
    with x Cons.prems(3) show ?thesis by auto
  next
    case False
    with Cons.prems(2) have "l \<in> set ls" by simp
    from Cons.IH [OF x(3) this Cons.prems(3)] show ?thesis .
  qed
qed

lemma collectLinkedItems_descend:
  "linked h its a b \<Longrightarrow> collectLinkedItems n h its a cur = Inr res \<Longrightarrow>
     \<exists>m < n. \<exists>cur' res'. collectLinkedItems m h its b cur' = Inr res'"
proof (induction arbitrary: n cur res rule: linked.induct)
  case (direct l a b)
  from direct.prems obtain n' where n: "n = Suc n'" by (cases n) auto
  from direct.hyps(1) have ne: "linkedWith (h a) \<noteq> []" by auto
  from direct.prems n ne have "collectLinkedItems_loop n' h its (linkedWith (h a)) cur = Inr res" by simp
  from collectLinkedItems_loop_member [OF this direct.hyps] n show ?case by auto
next
  case (via l a b c)
  from via.prems obtain n' where n: "n = Suc n'" by (cases n) auto
  from via.hyps(1) have ne: "linkedWith (h a) \<noteq> []" by auto
  from via.prems n ne have "collectLinkedItems_loop n' h its (linkedWith (h a)) cur = Inr res" by simp
  from collectLinkedItems_loop_member [OF this via.hyps(1,2)] obtain cur' res'
    where "collectLinkedItems n' h its b cur' = Inr res'" by blast
  from via.IH [OF this] obtain m where "m < n'"
    "\<exists>cur' res'. collectLinkedItems m h its c cur' = Inr res'" by blast
  with n show ?case by (intro exI [of _ m]) auto
qed

lemma collectLinkedItems_on_cycle:
  "linked h its a a \<Longrightarrow> collectLinkedItems n h its a cur \<noteq> Inr res"
proof (induction n arbitrary: cur res rule: less_induct)
  case (less n)
  show ?case
  proof
    assume "collectLinkedItems n h its a cur = Inr res"
    from collectLinkedItems_descend [OF less.prems this] obtain m cur' res'
      where "m < n" "collectLinkedItems m h its a cur' = Inr res'" by blast
    with less.IH [OF this(1) less.prems] show False by blast
  qed
qed

lemma collectLinkedItems_cycle_never_returns:
  assumes "linked h its a a" and "target = a \<or> linked h its target a"
  shows "collectLinkedItems stack h its target current \<noteq> Inr res"
proof
  assume r: "collectLinkedItems stack h its target current = Inr res"
  from assms(2) show False
  proof
    assume "target = a"
    with r collectLinkedItems_on_cycle [OF assms(1)] show False by blast
  next
    assume "linked h its target a"
    from collectLinkedItems_descend [OF this r] collectLinkedItems_on_cycle [OF assms(1)]
    show False by blast
  qed
qed



lemma find_None_iff_id: "(find P xs \<noteq> None) = (\<exists>x \<in> set xs. P x)"
  by (induction xs) auto

lemma getSelected_cycle_never_returns:
  assumes "\<not> (\<exists>s \<in> set (selected_ITEM (this_data st)).
                 item_id (objects st s) = item_id (objects st item))"
    and "linked (objects st) (chart_item_refs st) a a"
    and "item = a \<or> linked (objects st) (chart_item_refs st) item a"
  shows "getSelected stack st item \<noteq> Inr sel"
  using assms(1) collectLinkedItems_cycle_never_returns [OF assms(2,3), of stack "[item]"]
  unfolding getSelected_def find_None_iff_id
  by (auto split: option.splits sum.splits)











lemma looping_never_returns:
  "collectLinkedItems stack example_objects [(''L'', looping_L)] looping_L [looping_L] \<noteq> Inr res"
proof (rule collectLinkedItems_cycle_never_returns)
  show "linked example_objects [(''L'', looping_L)] looping_L looping_L"
    by (rule linked.direct [of "''L''"]) (simp_all add: example_items)
  show "looping_L = looping_L \<or> linked example_objects [(''L'', looping_L)] looping_L looping_L"
    by simp
qed




text \<open>An object with the same fields as \<open>D\<close> is not \<open>D\<close>: both stay in the union.\<close>

lemma Set_values_by_identity:
  "example_objects copy_of_D = example_objects diamond_D
   \<and> Set_values ([copy_of_D] @ [diamond_A, diamond_B, diamond_D, diamond_C, diamond_D])
       = [copy_of_D, diamond_A, diamond_B, diamond_D, diamond_C]"
  by (simp add: Set_values_def example_items)

lemma selectItems_example:
  "selectItems 3 (selection_example diamond_A False)
     = Inr (projr (selectItems 3 (selection_example diamond_A False)))"
  by (simp add: selectItems_def getSelected_def selection_example_def selection_data_def
        down_event_def numeral_3_eq_3 example_items Let_def)

text \<open>Selecting \<open>A\<close> without ctrl: \<open>A\<close>, \<open>B\<close>, \<open>C\<close>, \<open>D\<close> end up selected, \<open>X\<close> and \<open>Y\<close>
  deselected, with one notification.\<close>

theorem selectItems_commit_witness:
  "selectItems 3 (selection_example diamond_A False)
     = Inr (projr (selectItems 3 (selection_example diamond_A False)))
   \<and> distinct (map fst (chart_item_refs (selection_example diamond_A False)))
   \<and> distinct (map snd (chart_item_refs (selection_example diamond_A False)))
   \<and> selected_ITEM (this_data (projr (selectItems 3 (selection_example diamond_A False))))
       = [diamond_A, diamond_B, diamond_D, diamond_C, diamond_D]
   \<and> selected_flags (projr (selectItems 3 (selection_example diamond_A False)))
       = [(''A'', True), (''B'', True), (''C'', True), (''D'', True), (''X'', False), (''Y'', False)]
   \<and> notified (projr (selectItems 3 (selection_example diamond_A False)))
       = [items_view (projr (selectItems 3 (selection_example diamond_A False)))]"
  using selectItems_commit [OF selectItems_example] selectItems_example
  by (simp add: selection_eval numeral_3_eq_3 example_items)

section \<open>Results on releasing\<close>

lemma map_entry_as_map:
  "distinct (map fst al) \<Longrightarrow>
     AList.map_entry k f al = map (\<lambda>km. if fst km = k then (fst km, f (snd km)) else km) al"
proof (induction al)
  case Nil
  show ?case by simp
next
  case (Cons a al)
  obtain k' v where a: "a = (k', v)" by (cases a)
  show ?case
  proof (cases "k' = k")
    case True
    with Cons.prems a have "k \<notin> fst ` set al" by simp
    then have "map (\<lambda>km. if fst km = k then (fst km, f (snd km)) else km) al = al"
      by (intro map_idI) auto
    with True a show ?thesis by simp
  next
    case False
    with Cons a show ?thesis by simp
  qed
qed

lemma keys_map_entry: "map fst (AList.map_entry k f al) = map fst al"
  by (induction al) auto

lemma map_of_map_entry_const:
  "map_of al k = Some m \<Longrightarrow> AList.map_entry k (\<lambda>_. f m) al = AList.map_entry k f al"
  by (induction al) auto

lemma ghost_update_None: "ghost m = None \<Longrightarrow> m\<lparr>ghost := None\<rparr> = m"
  by (cases m) simp

lemma map_entry_unchanged:
  "(case map_of al k of None \<Rightarrow> True | Some m \<Rightarrow> f m = m) \<Longrightarrow> AList.map_entry k f al = al"
  by (induction al) (auto split: if_splits)

lemma destroyGhost_effect:
  assumes run: "destroyGhost options d k st = Inr st'"
  shows "movementState st' =
           AList.map_entry k (\<lambda>m. m\<lparr>ghost := (if ghostNode options then None else ghost m)\<rparr>)
             (movementState st)"
    and "set (timeline_children st') \<subseteq> set (timeline_children st)"
    and "distinct (timeline_children st) \<Longrightarrow> distinct (timeline_children st')"
    and "ghostNode options \<Longrightarrow> distinct (timeline_children st) \<Longrightarrow>
           map_of (movementState st) k = Some m \<Longrightarrow> ghost m = Some g \<Longrightarrow>
           ghost_node g \<notin> set (timeline_children st')"
proof -
  let ?f = "\<lambda>m. m\<lparr>ghost := (if ghostNode options then None else ghost m)\<rparr>"
  have unchanged: "movementState st' = AList.map_entry k ?f (movementState st)
      \<and> set (timeline_children st') \<subseteq> set (timeline_children st)
      \<and> (distinct (timeline_children st) \<longrightarrow> distinct (timeline_children st'))
      \<and> (ghostNode options \<longrightarrow> distinct (timeline_children st) \<longrightarrow>
           (\<forall>m g. map_of (movementState st) k = Some m \<longrightarrow> ghost m = Some g \<longrightarrow>
              ghost_node g \<notin> set (timeline_children st')))"
  proof (cases "ghostNode options")
    case False
    with run have "st' = st" by (simp add: destroyGhost_def)
    moreover from False have "AList.map_entry k ?f (movementState st) = movementState st"
      by (intro map_entry_unchanged) (simp split: option.split)
    ultimately show ?thesis using False by simp
  next
    case gn: True
    show ?thesis
    proof (cases "map_of (movementState st) k")
      case None
      with run gn have "st' = st" by (simp add: destroyGhost_def)
      moreover from None have "AList.map_entry k ?f (movementState st) = movementState st"
        by (intro map_entry_unchanged) simp
      ultimately show ?thesis using None by simp
    next
      case (Some m0)
      show ?thesis
      proof (cases "ghost m0")
        case None
        with run gn Some have "st' = st" by (simp add: destroyGhost_def)
        moreover from None Some gn have "AList.map_entry k ?f (movementState st) = movementState st"
          by (intro map_entry_unchanged) (simp add: ghost_update_None)
        ultimately show ?thesis using None Some by simp
      next
        case (Some g0)
        from run gn \<open>map_of (movementState st) k = Some m0\<close> Some
        have mem: "ghost_node g0 \<in> set (timeline_children st)"
          by (simp add: destroyGhost_def split: if_splits)
        with run gn \<open>map_of (movementState st) k = Some m0\<close> Some
        have st': "st' = saveMovement (item_id (data_item d)) (m0\<lparr>ghost := None\<rparr>)
                     (modify_movement k (\<lambda>_. m0\<lparr>ghost := None\<rparr>)
                        (st\<lparr>timeline_children := remove1 (ghost_node g0) (timeline_children st)\<rparr>))"
          by (simp add: destroyGhost_def Let_def)
        have ms: "movementState st' = AList.map_entry k (\<lambda>m. m\<lparr>ghost := None\<rparr>) (movementState st)"
          unfolding st' saveMovement_store modify_movement_store
          using map_of_map_entry_const [OF \<open>map_of (movementState st) k = Some m0\<close>,
                  of "\<lambda>m. m\<lparr>ghost := None\<rparr>"]
          by simp
        have ch: "timeline_children st' = remove1 (ghost_node g0) (timeline_children st)"
          unfolding st' saveMovement_store modify_movement_store by simp
        have "set (timeline_children st') \<subseteq> set (timeline_children st)"
          unfolding ch by (rule set_remove1_subset)
        moreover have "distinct (timeline_children st) \<longrightarrow> distinct (timeline_children st')"
          unfolding ch by simp
        moreover have "distinct (timeline_children st) \<longrightarrow>
            ghost_node g0 \<notin> set (timeline_children st')"
          unfolding ch by simp
        ultimately show ?thesis
          using ms gn \<open>map_of (movementState st) k = Some m0\<close> Some by simp
      qed
    qed
  qed
  from unchanged show "movementState st' = AList.map_entry k ?f (movementState st)" by blast
  from unchanged show "set (timeline_children st') \<subseteq> set (timeline_children st)" by blast
  from unchanged show "distinct (timeline_children st) \<Longrightarrow> distinct (timeline_children st')"
    by blast
  from unchanged show "ghostNode options \<Longrightarrow> distinct (timeline_children st) \<Longrightarrow>
           map_of (movementState st) k = Some m \<Longrightarrow> ghost m = Some g \<Longrightarrow>
           ghost_node g \<notin> set (timeline_children st')" by blast
qed

lemma release_idem: "release options (release options m) = release options m"
  by (simp add: release_def clear_flags_def)

lemma release_step:
  "(clear_flags m)\<lparr>ghost := (if ghostNode options then None else ghost (clear_flags m))\<rparr>
     = release options m"
  by (simp add: release_def clear_flags_def)

lemma documentUp_step:
  assumes run: "destroyGhost options d k (modify_movement k clear_flags st) = Inr st'"
    and keys: "distinct (map fst (movementState st))"
  shows "movementState st' =
           map (\<lambda>km. if fst km = k then (fst km, release options (snd km)) else km)
             (movementState st)"
proof -
  let ?f = "\<lambda>m. m\<lparr>ghost := (if ghostNode options then None else ghost m)\<rparr>"
  have keys': "distinct (map fst (AList.map_entry k clear_flags (movementState st)))"
    using keys by (simp add: keys_map_entry)
  have "movementState st' =
      AList.map_entry k ?f (AList.map_entry k clear_flags (movementState st))"
    using destroyGhost_effect(1) [OF run] by (simp add: modify_movement_store)
  also have "\<dots> = map (\<lambda>km. if fst km = k then (fst km, ?f (snd km)) else km)
      (map (\<lambda>km. if fst km = k then (fst km, clear_flags (snd km)) else km) (movementState st))"
    by (subst map_entry_as_map [OF keys']) (simp only: map_entry_as_map [OF keys])
  also have "\<dots> = map (\<lambda>km. if fst km = k then (fst km, release options (snd km)) else km)
      (movementState st)"
    unfolding map_map by (rule map_cong) (simp_all add: release_def clear_flags_def)
  finally show ?thesis .
qed

lemma documentUp_loop_effect:
  assumes "documentUp_loop options d ks st = Inr st'"
    and "distinct (map fst (movementState st))"
    and "distinct (timeline_children st)"
  shows "movementState st' =
           map (\<lambda>km. if fst km \<in> set ks then (fst km, release options (snd km)) else km)
             (movementState st)
         \<and> set (timeline_children st') \<subseteq> set (timeline_children st)
         \<and> distinct (timeline_children st')
         \<and> (ghostNode options \<longrightarrow>
               (\<forall>km \<in> set (movementState st). fst km \<in> set ks \<longrightarrow>
                  (\<forall>g. ghost (snd km) = Some g \<longrightarrow> ghost_node g \<notin> set (timeline_children st'))))"
  using assms
proof (induction ks arbitrary: st)
  case Nil
  then show ?case by (simp add: map_idI)
next
  case (Cons k ks)
  let ?st0 = "modify_movement k clear_flags st"
  from Cons.prems(1) obtain st1 where
    step: "destroyGhost options d k ?st0 = Inr st1"
    and rest: "documentUp_loop options d ks st1 = Inr st'"
    by (auto split: sum.splits)
  have ms1: "movementState st1 =
      map (\<lambda>km. if fst km = k then (fst km, release options (snd km)) else km) (movementState st)"
    by (rule documentUp_step [OF step Cons.prems(2)])
  have keys1: "distinct (map fst (movementState st1))"
    unfolding ms1 using Cons.prems(2) by (simp add: comp_def if_distrib cong: if_cong)
  have ch0: "timeline_children ?st0 = timeline_children st"
    by (simp add: modify_movement_store)
  have sub1: "set (timeline_children st1) \<subseteq> set (timeline_children st)"
    using destroyGhost_effect(2) [OF step] ch0 by simp
  have dist1: "distinct (timeline_children st1)"
    using destroyGhost_effect(3) [OF step] ch0 Cons.prems(3) by simp
  note IH = Cons.IH [OF rest keys1 dist1]
  have ms': "movementState st' =
      map (\<lambda>km. if fst km \<in> set (k # ks) then (fst km, release options (snd km)) else km)
        (movementState st)"
  proof -
    have "movementState st' =
        map (\<lambda>km. if fst km \<in> set ks then (fst km, release options (snd km)) else km)
          (map (\<lambda>km. if fst km = k then (fst km, release options (snd km)) else km)
             (movementState st))"
      using IH ms1 by simp
    also have "\<dots> = map (\<lambda>km. if fst km \<in> set (k # ks) then (fst km, release options (snd km)) else km)
        (movementState st)"
      unfolding map_map by (rule map_cong) (simp_all add: release_idem)
    finally show ?thesis .
  qed
  have sub': "set (timeline_children st') \<subseteq> set (timeline_children st)"
    using IH sub1 by blast
  have nodes: "ghost_node g \<notin> set (timeline_children st')"
    if gn: "ghostNode options" and km: "km \<in> set (movementState st)"
      and k: "fst km \<in> set (k # ks)" and g: "ghost (snd km) = Some g" for km g
  proof (cases "fst km = k")
    case True
    from km have "(fst km, snd km) \<in> set (movementState st)" by simp
    then have "map_of (movementState st) (fst km) = Some (snd km)"
      by (simp only: map_of_eq_Some_iff [OF Cons.prems(2)])
    with True have "map_of (movementState ?st0) k = Some (clear_flags (snd km))"
      by (simp add: modify_movement_store map_of_map_entry)
    moreover have "ghost (clear_flags (snd km)) = Some g"
      using g by (simp add: clear_flags_def)
    moreover have "distinct (timeline_children ?st0)"
      using ch0 Cons.prems(3) by simp
    ultimately have "ghost_node g \<notin> set (timeline_children st1)"
      using destroyGhost_effect(4) [OF step gn] by blast
    with IH show ?thesis by blast
  next
    case False
    with k have inks: "fst km \<in> set ks" by simp
    from km False have "km \<in> set (movementState st1)"
      unfolding ms1 by (auto simp: image_iff intro!: bexI [of _ km])
    with IH gn inks g show ?thesis by blast
  qed
  from ms' sub' IH nodes show ?case by blast
qed

lemma released_release:
  "ghostNode options \<or> ghost m = None \<Longrightarrow> released (release options m)"
  by (auto simp: released_def release_def clear_flags_def)

lemma ghost_nodes_mem:
  "n \<in> set (ghost_nodes st) \<longleftrightarrow>
     (\<exists>km \<in> set (movementState st). \<exists>g. ghost (snd km) = Some g \<and> ghost_node g = n)"
proof
  assume "n \<in> set (ghost_nodes st)"
  then obtain km where km: "km \<in> set (movementState st)"
    "n \<in> set (case ghost (snd km) of None \<Rightarrow> [] | Some g \<Rightarrow> [ghost_node g])"
    by (auto simp: ghost_nodes_def)
  then show "\<exists>km \<in> set (movementState st). \<exists>g. ghost (snd km) = Some g \<and> ghost_node g = n"
    by (cases "ghost (snd km)") auto
next
  assume "\<exists>km \<in> set (movementState st). \<exists>g. ghost (snd km) = Some g \<and> ghost_node g = n"
  then obtain km g where km: "km \<in> set (movementState st)" "ghost (snd km) = Some g"
    "ghost_node g = n" by blast
  then have "n \<in> set (case ghost (snd km) of None \<Rightarrow> [] | Some g \<Rightarrow> [ghost_node g])"
    by simp
  with km(1) show "n \<in> set (ghost_nodes st)"
    unfolding ghost_nodes_def set_concat set_map by blast
qed

lemma all_released_no_ghosts:
  "all_released st \<Longrightarrow> list_all (\<lambda>km. ghost (snd km) = None) (movementState st)"
  by (simp add: all_released_def released_def list_all_iff)

lemma all_released_no_nodes: "all_released st \<Longrightarrow> ghost_nodes st = []"
proof -
  assume "all_released st"
  then have "\<forall>km \<in> set (movementState st). ghost (snd km) = None"
    by (simp add: all_released_def released_def list_all_iff)
  then have no: "n \<notin> set (ghost_nodes st)" for n by (simp add: ghost_nodes_mem)
  show ?thesis
  proof (cases "ghost_nodes st")
    case Nil
    then show ?thesis .
  next
    case (Cons a as)
    then have "a \<in> set (ghost_nodes st)" by simp
    with no show ?thesis by blast
  qed
qed

lemma documentUp_active:
  assumes run: "documentUp options d ev st = Inr st'"
    and act: "active st d"
    and cons: "consistent options st"
  shows "all_released st'"
    and "consistent options st'"
    and "map fst (movementState st') = map fst (movementState st)"
    and "set (timeline_children st') \<subseteq> set (timeline_children st)"
    and "list_all (\<lambda>n. n \<notin> set (timeline_children st')) (ghost_nodes st)"
proof -
  let ?id = "item_id (data_item d)"
  let ?al = "movementState st"
  from cons have keys: "distinct (map fst ?al)" and dch: "distinct (timeline_children st)"
    and gh: "ghostNode options \<or> list_all (\<lambda>km. ghost (snd km) = None) ?al"
    by (simp_all add: consistent_def)
  from act obtain m where m: "map_of ?al ?id = Some m"
    and flags: "moving m \<or> resizing m \<or> waiting m"
    by (auto simp: active_def split: option.splits)
  have g: "getMovement d st = (m, st)" using m by (rule getMovement_existing)
  define st3 where "st3 = saveMovement ?id (clear_flags m)
      (modify_movement ?id (\<lambda>_. clear_flags m) st)"
  have cf: "m\<lparr>moving := False, waiting := False, resizing := False\<rparr> = clear_flags m"
    by (simp add: clear_flags_def)
  from run flags have loop:
    "documentUp_loop options d (map fst (movementState st3)) st3 = Inr st'"
    unfolding documentUp_def st3_def by (simp add: g cf Let_def)
  have al3: "movementState st3 =
      map (\<lambda>km. if fst km = ?id then (fst km, clear_flags (snd km)) else km) ?al"
  proof -
    have "AList.map_entry ?id (\<lambda>_. clear_flags m) ?al = AList.map_entry ?id clear_flags ?al"
      by (rule map_of_map_entry_const [OF m])
    then show ?thesis
      unfolding st3_def saveMovement_store modify_movement_store
      by (simp only: map_entry_as_map [OF keys])
  qed
  have keys3: "map fst (movementState st3) = map fst ?al"
    unfolding al3 by (simp add: comp_def if_distrib cong: if_cong)
  have ch3: "timeline_children st3 = timeline_children st"
    unfolding st3_def by (simp add: saveMovement_store modify_movement_store)
  have eff: "movementState st' =
           map (\<lambda>km. if fst km \<in> set (map fst (movementState st3))
                      then (fst km, release options (snd km)) else km) (movementState st3)
         \<and> set (timeline_children st') \<subseteq> set (timeline_children st3)
         \<and> distinct (timeline_children st')
         \<and> (ghostNode options \<longrightarrow>
               (\<forall>km \<in> set (movementState st3). fst km \<in> set (map fst (movementState st3)) \<longrightarrow>
                  (\<forall>g. ghost (snd km) = Some g \<longrightarrow> ghost_node g \<notin> set (timeline_children st'))))"
    by (rule documentUp_loop_effect [OF loop]) (simp_all add: keys3 keys ch3 dch)
  have al': "movementState st' = map (\<lambda>km. (fst km, release options (snd km))) (movementState st3)"
  proof -
    have "map (\<lambda>km. if fst km \<in> set (map fst (movementState st3))
                      then (fst km, release options (snd km)) else km) (movementState st3)
        = map (\<lambda>km. (fst km, release options (snd km))) (movementState st3)"
      by (rule map_cong) simp_all
    with eff show ?thesis by simp
  qed
  have ghost3: "ghostNode options \<or> ghost (snd km) = None" if "km \<in> set (movementState st3)" for km
  proof (cases "ghostNode options")
    case True
    then show ?thesis by simp
  next
    case False
    with gh have no: "\<forall>km \<in> set ?al. ghost (snd km) = None" by (simp add: list_all_iff)
    from that have "km \<in> (\<lambda>km. if fst km = ?id then (fst km, clear_flags (snd km)) else km) ` set ?al"
      unfolding al3 by simp
    then obtain km0 where "km0 \<in> set ?al"
      "km = (if fst km0 = ?id then (fst km0, clear_flags (snd km0)) else km0)"
      by (rule imageE)
    with no show ?thesis by (auto simp: clear_flags_def split: if_splits)
  qed
  show rel: "all_released st'"
    unfolding all_released_def al' list_all_iff
    using ghost3 by (auto intro: released_release)
  show keys': "map fst (movementState st') = map fst (movementState st)"
    unfolding al' using keys3 by (simp add: comp_def)
  show sub: "set (timeline_children st') \<subseteq> set (timeline_children st)"
    using eff ch3 by simp
  show "consistent options st'"
    unfolding consistent_def using keys' keys eff all_released_no_ghosts [OF rel] by simp
  show "list_all (\<lambda>n. n \<notin> set (timeline_children st')) (ghost_nodes st)"
  proof (cases "ghostNode options")
    case False
    with gh have "\<forall>km \<in> set ?al. ghost (snd km) = None" by (simp add: list_all_iff)
    then have "n \<notin> set (ghost_nodes st)" for n by (simp add: ghost_nodes_mem)
    then show ?thesis unfolding list_all_iff by blast
  next
    case True
    have "n \<notin> set (timeline_children st')" if "n \<in> set (ghost_nodes st)" for n
    proof -
      from that obtain km g where km: "km \<in> set ?al" "ghost (snd km) = Some g" "ghost_node g = n"
        unfolding ghost_nodes_mem by blast
      let ?km3 = "if fst km = ?id then (fst km, clear_flags (snd km)) else km"
      have in3: "?km3 \<in> set (movementState st3)"
        unfolding al3 set_map by (rule image_eqI [OF _ km(1)]) simp
      have g3: "ghost (snd ?km3) = Some g" using km(2) by (simp add: clear_flags_def)
      from in3 have "fst ?km3 \<in> fst ` set (movementState st3)" by (rule imageI)
      then have k3: "fst ?km3 \<in> set (map fst (movementState st3))" by simp
      from eff True in3 k3 g3 km(3) show ?thesis by blast
    qed
    then show ?thesis by (simp add: list_all_iff)
  qed
qed

lemma getMovement_cases:
  assumes "getMovement d st = (m, st1)"
  shows "(map_of (movementState st) (item_id (data_item d)) = Some m \<and> st1 = st)
         \<or> (map_of (movementState st) (item_id (data_item d)) = None \<and> m = fresh_movement
             \<and> st1 = st\<lparr>movementState := movementState st @ [(item_id (data_item d), fresh_movement)]\<rparr>)"
  using assms by (auto simp: getMovement_def Let_def split: option.splits)

lemma fresh_movement_released: "released fresh_movement"
  by (simp add: released_def fresh_movement_def)

lemma consistent_append_fresh:
  assumes "consistent options st" "map_of (movementState st) k = None"
  shows "consistent options (st\<lparr>movementState := movementState st @ [(k, fresh_movement)]\<rparr>)"
proof -
  from assms(2) have "k \<notin> fst ` set (movementState st)" by (simp add: map_of_eq_None_iff)
  with assms(1) show ?thesis
    by (auto simp: consistent_def fresh_movement_def)
qed

lemma active_append_fresh:
  assumes "map_of (movementState st) k = None"
  shows "active (st\<lparr>movementState := movementState st @ [(k, fresh_movement)]\<rparr>) d' = active st d'"
proof (cases "map_of (movementState st) (item_id (data_item d'))")
  case None
  then show ?thesis
    by (simp add: active_def map_add_def fresh_movement_def)
next
  case (Some m)
  then show ?thesis by (simp add: active_def map_add_def)
qed

lemma documentUp_inactive:
  assumes run: "documentUp options d ev st = Inr st'"
    and inact: "\<not> active st d"
  shows "st' = st \<or>
         (map_of (movementState st) (item_id (data_item d)) = None
          \<and> st' = st\<lparr>movementState := movementState st @ [(item_id (data_item d), fresh_movement)]\<rparr>)"
proof -
  obtain m st1 where g: "getMovement d st = (m, st1)" by (cases "getMovement d st")
  from getMovement_cases [OF g] inact have idle: "\<not> (moving m \<or> resizing m \<or> waiting m)"
    by (auto simp: active_def fresh_movement_def)
  with run g have "st' = st1" by (simp add: documentUp_def)
  with getMovement_cases [OF g] show ?thesis by auto
qed

lemma pointerup_effect:
  assumes "pointerup options ds ev st = Inr st'"
    and "consistent options st"
    and "list_ex (active st) ds \<or> all_released st"
  shows "all_released st' \<and> consistent options st'
         \<and> set (map fst (movementState st)) \<subseteq> set (map fst (movementState st'))
         \<and> set (timeline_children st') \<subseteq> set (timeline_children st)
         \<and> list_all (\<lambda>n. n \<notin> set (timeline_children st')) (ghost_nodes st)"
  using assms
proof (induction ds arbitrary: st)
  case Nil
  then have "st' = st" "all_released st" by simp_all
  with Nil.prems(2) show ?case by (simp add: all_released_no_nodes)
next
  case (Cons d ds)
  from Cons.prems(1) obtain st1 where
    up: "documentUp options d ev st = Inr st1" and rest: "pointerup options ds ev st1 = Inr st'"
    by (auto split: sum.splits)
  show ?case
  proof (cases "active st d")
    case True
    note a = documentUp_active [OF up True Cons.prems(2)]
    from Cons.IH [OF rest a(2)] a(1)
    have IH: "all_released st'" "consistent options st'"
      "set (map fst (movementState st1)) \<subseteq> set (map fst (movementState st'))"
      "set (timeline_children st') \<subseteq> set (timeline_children st1)"
      by simp_all
    have "list_all (\<lambda>n. n \<notin> set (timeline_children st')) (ghost_nodes st)"
      using a(5) IH(4) unfolding list_all_iff by blast
    with IH a(3,4) show ?thesis by simp
  next
    case False
    with Cons.prems(3) have pre: "list_ex (active st) ds \<or> all_released st" by simp
    from documentUp_inactive [OF up False] show ?thesis
    proof
      assume "st1 = st"
      with Cons.IH [OF rest _ _] Cons.prems(2) pre show ?thesis by simp
    next
      assume app: "map_of (movementState st) (item_id (data_item d)) = None
          \<and> st1 = st\<lparr>movementState := movementState st @ [(item_id (data_item d), fresh_movement)]\<rparr>"
      then have none: "map_of (movementState st) (item_id (data_item d)) = None"
        and st1: "st1 = st\<lparr>movementState := movementState st @ [(item_id (data_item d), fresh_movement)]\<rparr>"
        by simp_all
      have c1: "consistent options st1"
        unfolding st1 by (rule consistent_append_fresh [OF Cons.prems(2) none])
      have act1: "active st1 d' = active st d'" for d'
        unfolding st1 by (rule active_append_fresh [OF none])
      have rel1: "all_released st \<Longrightarrow> all_released st1"
        unfolding st1 by (simp add: all_released_def fresh_movement_released)
      have pre1: "list_ex (active st1) ds \<or> all_released st1"
        using pre rel1 by (auto simp: act1 list_ex_iff)
      have gn1: "ghost_nodes st1 = ghost_nodes st"
        unfolding st1 by (simp add: ghost_nodes_def fresh_movement_def)
      have ch1: "timeline_children st1 = timeline_children st"
        unfolding st1 by simp
      have keys1: "set (map fst (movementState st)) \<subseteq> set (map fst (movementState st1))"
        unfolding st1 by auto
      from Cons.IH [OF rest c1 pre1] gn1 ch1 keys1 show ?thesis by auto
    qed
  qed
qed

text \<open>
  C5, as the code has it. When a pointer-up is handled by the mounted listeners and
  the own item of at least one of them is moving, resizing or waiting, then after the
  listeners have run every tracked item is still tracked, has its \<open>moving\<close>,
  \<open>resizing\<close> and \<open>waiting\<close> flags false and holds no ghost, and the nodes of the
  former ghosts are no longer children of the timeline; this includes the items of
  other listeners and items without a listener. A listener whose own item is idle
  returns at once. On a state whose ghosts are all mounted the pointer-up does not
  throw (\<open>pointerup_returns\<close>).
\<close>

theorem pointerup_releases_all:
  assumes "pointerup options ds ev st = Inr st'"
    and "list_ex (active st) ds"
    and "consistent options st"
  shows "all_released st'
         \<and> set (map fst (movementState st)) \<subseteq> set (map fst (movementState st'))
         \<and> list_all (\<lambda>n. n \<notin> set (timeline_children st')) (ghost_nodes st)"
  using pointerup_effect [OF assms(1,3)] assms(2) by simp

lemma flags_afterD:
  "flags_after r k = Some p \<Longrightarrow> \<exists>st'. r = Inr st'"
  by (cases r) (auto simp: flags_after_def)

lemmas release_eval =
  documentUp_def destroyGhost_def getMovement_def
  modify_movement_def saveMovement_def clear_flags_def labelDown_def labelDown_timeout_def
  flags_after_def children_after_def dragging_state_def stuck_state_def example_state_def
  example_data_def defaultOptions_def fresh_movement_def plain_item_def plain_row_def
  up_event_def down_on_item_def Let_def

text \<open>The listener of the moving \<open>I1\<close> releases \<open>I1\<close> and the waiting \<open>I2\<close> and removes
  both ghosts.\<close>

theorem pointerup_releases_all_witness:
  "list_ex (active dragging_state) [example_data]
   \<and> consistent defaultOptions dragging_state
   \<and> flags_after (pointerup defaultOptions [example_data] up_event dragging_state) ''I1''
       = Some (False, False, False, False)
   \<and> flags_after (pointerup defaultOptions [example_data] up_event dragging_state) ''I2''
       = Some (False, False, False, False)
   \<and> children_after (pointerup defaultOptions [example_data] up_event dragging_state) = Some []"
proof -
  let ?r = "pointerup defaultOptions [example_data] up_event dragging_state"
  have f1: "flags_after ?r ''I1'' = Some (False, False, False, False)"
    by (simp add: release_eval)
  have f2: "flags_after ?r ''I2'' = Some (False, False, False, False)"
    by (simp add: release_eval)
  have ch: "children_after ?r = Some []"
    by (simp add: release_eval)
  from flags_afterD [OF f1] obtain st' where r: "?r = Inr st'" by blast
  have act: "list_ex (active dragging_state) [example_data]"
    by (simp add: active_def release_eval)
  have cons: "consistent defaultOptions dragging_state"
    by (simp add: consistent_def release_eval)
  from pointerup_releases_all [OF r act cons] act cons f1 f2 ch
  show ?thesis by simp
qed

text \<open>The tracked item \<open>I2\<close> is moving, but the only mounted listener is the one of
  the idle \<open>I1\<close>: after the pointer-up \<open>I2\<close> is still moving and its ghost is still in
  the timeline.\<close>

theorem pointerup_idle_listener_counterexample:
  "flags_after (Inr stuck_state) ''I2'' = Some (True, False, False, True)
   \<and> flags_after (pointerup defaultOptions [example_data] up_event stuck_state) ''I2''
       = Some (True, False, False, True)
   \<and> children_after (pointerup defaultOptions [example_data] up_event stuck_state) = Some [0]"
  by (simp add: release_eval)


lemma ghosts_mountedD:
  assumes "ghosts_mounted st" "km \<in> set (movementState st)" "ghost (snd km) = Some g"
  shows "ghost_node g \<in> set (timeline_children st)"
    and "km' \<in> set (movementState st) \<Longrightarrow> ghost (snd km') = Some g' \<Longrightarrow>
           ghost_node g' = ghost_node g \<Longrightarrow> fst km' = fst km"
  using assms unfolding ghosts_mounted_def by blast+

lemma ghosts_mounted_cong:
  "movementState st' = movementState st \<Longrightarrow> timeline_children st' = timeline_children st \<Longrightarrow>
     ghosts_mounted st' = ghosts_mounted st"
  by (simp only: ghosts_mounted_def)

lemma ghosts_mounted_append_fresh:
  assumes gm: "ghosts_mounted st"
  shows "ghosts_mounted (st\<lparr>movementState := movementState st @ [(k, fresh_movement)]\<rparr>)"
proof -
  let ?st' = "st\<lparr>movementState := movementState st @ [(k, fresh_movement)]\<rparr>"
  have old: "km \<in> set (movementState st)"
    if "km \<in> set (movementState ?st')" "ghost (snd km) = Some g" for km g
    using that by (auto simp: fresh_movement_def)
  show ?thesis
    unfolding ghosts_mounted_def
  proof (intro ballI allI impI conjI)
    fix km g
    assume km: "km \<in> set (movementState ?st')" and g: "ghost (snd km) = Some g"
    from ghosts_mountedD(1) [OF gm old [OF km g] g]
    show "ghost_node g \<in> set (timeline_children ?st')" by simp
    fix km' g'
    assume km': "km' \<in> set (movementState ?st')" and g': "ghost (snd km') = Some g'"
      and eq: "ghost_node g' = ghost_node g"
    show "fst km' = fst km"
      by (rule ghosts_mountedD(2) [OF gm old [OF km g] g old [OF km' g'] g' eq])
  qed
qed

lemma in_map_entry:
  assumes "km \<in> set (AList.map_entry k f al)"
  shows "km \<in> set al \<or> (\<exists>m. (k, m) \<in> set al \<and> km = (k, f m))"
  using assms by (induction al) (auto split: if_splits)

lemma ghosts_mounted_modify:
  assumes "ghosts_mounted st" and "\<And>m. ghost (f m) = ghost m"
  shows "ghosts_mounted (modify_movement k f st)"
proof -
  have orig: "\<exists>km0 \<in> set (movementState st). fst km0 = fst km \<and> ghost (snd km0) = ghost (snd km)"
    if "km \<in> set (movementState (modify_movement k f st))" for km
  proof -
    from that have "km \<in> set (AList.map_entry k f (movementState st))"
      by (simp add: modify_movement_store)
    from in_map_entry [OF this] show ?thesis
    proof
      assume "km \<in> set (movementState st)"
      then show ?thesis by blast
    next
      assume "\<exists>m. (k, m) \<in> set (movementState st) \<and> km = (k, f m)"
      then obtain m where m: "(k, m) \<in> set (movementState st)" "km = (k, f m)" by blast
      show ?thesis
        by (rule bexI [OF _ m(1)]) (simp add: m(2) assms(2))
    qed
  qed
  show ?thesis
    unfolding ghosts_mounted_def
  proof (intro ballI allI impI conjI)
    fix km g
    assume km: "km \<in> set (movementState (modify_movement k f st))" and g: "ghost (snd km) = Some g"
    from orig [OF km] obtain km0 where km0: "km0 \<in> set (movementState st)" "fst km0 = fst km"
      "ghost (snd km0) = ghost (snd km)" by blast
    with g have g0: "ghost (snd km0) = Some g" by simp
    from ghosts_mountedD(1) [OF assms(1) km0(1) g0]
    show "ghost_node g \<in> set (timeline_children (modify_movement k f st))"
      by (simp add: modify_movement_store)
    fix km' g'
    assume km': "km' \<in> set (movementState (modify_movement k f st))"
      and g': "ghost (snd km') = Some g'" and eq: "ghost_node g' = ghost_node g"
    from orig [OF km'] obtain km0' where km0': "km0' \<in> set (movementState st)"
      "fst km0' = fst km'" "ghost (snd km0') = ghost (snd km')" by blast
    from km0' g' have g0': "ghost (snd km0') = Some g'" by simp
    from ghosts_mountedD(2) [OF assms(1) km0(1) g0 km0'(1) g0' eq]
    have "fst km0' = fst km0" .
    with km0(2) km0'(2) show "fst km' = fst km" by simp
  qed
qed

lemma destroyGhost_returns:
  assumes gm: "ghosts_mounted st" and keys: "distinct (map fst (movementState st))"
  shows "\<exists>st'. destroyGhost options d k st = Inr st' \<and> ghosts_mounted st'"
proof (cases "ghostNode options")
  case False
  with gm show ?thesis by (simp add: destroyGhost_def)
next
  case gn: True
  show ?thesis
  proof (cases "map_of (movementState st) k")
    case None
    with gn gm show ?thesis by (simp add: destroyGhost_def)
  next
    case (Some m)
    show ?thesis
    proof (cases "ghost m")
      case None
      with gn gm Some show ?thesis by (simp add: destroyGhost_def)
    next
      case (Some g)
      from \<open>map_of (movementState st) k = Some m\<close> have km: "(k, m) \<in> set (movementState st)"
        by (rule map_of_SomeD)
      have gkm: "ghost (snd (k, m)) = Some g" using Some by simp
      have mem: "ghost_node g \<in> set (timeline_children st)"
        by (rule ghosts_mountedD(1) [OF gm km gkm])
      define st' where "st' = saveMovement (item_id (data_item d)) (m\<lparr>ghost := None\<rparr>)
                     (modify_movement k (\<lambda>_. m\<lparr>ghost := None\<rparr>)
                        (st\<lparr>timeline_children := remove1 (ghost_node g) (timeline_children st)\<rparr>))"
      have run: "destroyGhost options d k st = Inr st'"
        using gn \<open>map_of (movementState st) k = Some m\<close> Some mem
        by (simp add: destroyGhost_def st'_def Let_def)
      have ms: "movementState st' =
          map (\<lambda>km. if fst km = k then (fst km, (snd km)\<lparr>ghost := None\<rparr>) else km) (movementState st)"
        using destroyGhost_effect(1) [OF run] gn by (simp add: map_entry_as_map [OF keys])
      have ch: "timeline_children st' = remove1 (ghost_node g) (timeline_children st)"
        by (simp add: st'_def saveMovement_store modify_movement_store)
      have orig: "km' \<in> set (movementState st) \<and> fst km' \<noteq> k"
        if "km' \<in> set (movementState st')" "ghost (snd km') = Some g'" for km' g'
      proof -
        from that(1) have "km' \<in> (\<lambda>km. if fst km = k then (fst km, (snd km)\<lparr>ghost := None\<rparr>)
                                  else km) ` set (movementState st)"
          unfolding ms by simp
        then obtain km0 where km0: "km0 \<in> set (movementState st)"
          "km' = (if fst km0 = k then (fst km0, (snd km0)\<lparr>ghost := None\<rparr>) else km0)"
          by (rule imageE)
        with that(2) show ?thesis by (cases "fst km0 = k") simp_all
      qed
      have "ghosts_mounted st'"
        unfolding ghosts_mounted_def
      proof (intro ballI allI impI conjI)
        fix km1 g1
        assume km1: "km1 \<in> set (movementState st')" and g1: "ghost (snd km1) = Some g1"
        note o1 = orig [OF km1 g1]
        from o1 have o1': "km1 \<in> set (movementState st)" by simp
        have in1: "ghost_node g1 \<in> set (timeline_children st)"
          by (rule ghosts_mountedD(1) [OF gm o1' g1])
        have "ghost_node g1 \<noteq> ghost_node g"
        proof
          assume "ghost_node g1 = ghost_node g"
          from ghosts_mountedD(2) [OF gm km gkm o1' g1 this]
          have "fst km1 = fst (k, m)" .
          with o1 show False by simp
        qed
        with in1 show "ghost_node g1 \<in> set (timeline_children st')"
          unfolding ch by simp
        fix km2 g2
        assume km2: "km2 \<in> set (movementState st')" and g2: "ghost (snd km2) = Some g2"
          and eq: "ghost_node g2 = ghost_node g1"
        note o2 = orig [OF km2 g2]
        from o2 have o2': "km2 \<in> set (movementState st)" by simp
        show "fst km2 = fst km1"
          by (rule ghosts_mountedD(2) [OF gm o1' g1 o2' g2 eq])
      qed
      with run show ?thesis by blast
    qed
  qed
qed

lemma documentUp_loop_returns:
  assumes "ghosts_mounted st" and "distinct (map fst (movementState st))"
  shows "\<exists>st'. documentUp_loop options d ks st = Inr st'"
  using assms
proof (induction ks arbitrary: st)
  case Nil
  show ?case by simp
next
  case (Cons k ks)
  let ?st0 = "modify_movement k clear_flags st"
  have gm0: "ghosts_mounted ?st0"
    by (rule ghosts_mounted_modify [OF Cons.prems(1)]) (simp add: clear_flags_def)
  have keys0: "distinct (map fst (movementState ?st0))"
    using Cons.prems(2) by (simp add: modify_movement_store keys_map_entry)
  from destroyGhost_returns [OF gm0 keys0, of options d k] obtain st1 where
    st1: "destroyGhost options d k ?st0 = Inr st1" "ghosts_mounted st1" by blast
  have "movementState st1 =
      map (\<lambda>km. if fst km = k then (fst km, release options (snd km)) else km) (movementState st)"
    by (rule documentUp_step [OF st1(1) Cons.prems(2)])
  then have keys1: "distinct (map fst (movementState st1))"
    using Cons.prems(2) by (simp add: comp_def if_distrib cong: if_cong)
  from Cons.IH [OF st1(2) keys1] st1(1) show ?case by simp
qed

lemma documentUp_returns:
  assumes gm: "ghosts_mounted st" and cons: "consistent options st"
  shows "\<exists>st'. documentUp options d ev st = Inr st'"
proof (cases "active st d")
  case False
  obtain m st1 where g: "getMovement d st = (m, st1)" by (cases "getMovement d st")
  from getMovement_cases [OF g] False have "\<not> (moving m \<or> resizing m \<or> waiting m)"
    by (auto simp: active_def fresh_movement_def)
  with g show ?thesis by (simp add: documentUp_def)
next
  case True
  let ?id = "item_id (data_item d)"
  from True obtain m where m: "map_of (movementState st) ?id = Some m"
    and flags: "moving m \<or> resizing m \<or> waiting m"
    by (auto simp: active_def split: option.splits)
  have g: "getMovement d st = (m, st)" using m by (rule getMovement_existing)
  define st3 where "st3 = saveMovement ?id (clear_flags m)
      (modify_movement ?id (\<lambda>_. clear_flags m) st)"
  have cf: "m\<lparr>moving := False, waiting := False, resizing := False\<rparr> = clear_flags m"
    by (simp add: clear_flags_def)
  have run: "documentUp options d ev st =
      documentUp_loop options d (map fst (movementState st3)) st3"
    using flags unfolding documentUp_def st3_def by (simp add: g cf Let_def)
  have "AList.map_entry ?id (\<lambda>_. clear_flags m) (movementState st)
      = AList.map_entry ?id clear_flags (movementState st)"
    by (rule map_of_map_entry_const [OF m])
  then have eq: "modify_movement ?id (\<lambda>_. clear_flags m) st = modify_movement ?id clear_flags st"
    by (simp add: modify_movement_def)
  have "ghosts_mounted (modify_movement ?id clear_flags st)"
    by (rule ghosts_mounted_modify [OF gm]) (simp add: clear_flags_def)
  then have gm3: "ghosts_mounted st3"
    unfolding st3_def eq
    by (simp only: ghosts_mounted_cong [OF saveMovement_store(4) saveMovement_store(5)])
  from cons have "distinct (map fst (movementState st3))"
    unfolding st3_def
    by (simp add: consistent_def saveMovement_store modify_movement_store keys_map_entry)
  from documentUp_loop_returns [OF gm3 this] run show ?thesis by simp
qed

lemma documentUp_mounted:
  assumes run: "documentUp options d ev st = Inr st'"
    and gm: "ghosts_mounted st" and cons: "consistent options st"
  shows "ghosts_mounted st' \<and> consistent options st'"
proof (cases "active st d")
  case True
  note a = documentUp_active [OF run True cons]
  from a(1) have "\<forall>km \<in> set (movementState st'). ghost (snd km) = None"
    by (simp add: all_released_def released_def list_all_iff)
  then have "ghosts_mounted st'" by (simp add: ghosts_mounted_def)
  with a(2) show ?thesis by simp
next
  case False
  from documentUp_inactive [OF run False] show ?thesis
  proof
    assume "st' = st"
    with gm cons show ?thesis by simp
  next
    assume "map_of (movementState st) (item_id (data_item d)) = None \<and>
      st' = st\<lparr>movementState := movementState st @ [(item_id (data_item d), fresh_movement)]\<rparr>"
    then have none: "map_of (movementState st) (item_id (data_item d)) = None"
      and st': "st' = st\<lparr>movementState := movementState st @ [(item_id (data_item d), fresh_movement)]\<rparr>"
      by simp_all
    have "consistent options st'"
      unfolding st' by (rule consistent_append_fresh [OF cons none])
    moreover have "ghosts_mounted st'"
      unfolding st' by (rule ghosts_mounted_append_fresh [OF gm])
    ultimately show ?thesis by simp
  qed
qed

lemma pointerup_returns:
  assumes "ghosts_mounted st" and "consistent options st"
  shows "\<exists>st'. pointerup options ds ev st = Inr st'"
  using assms
proof (induction ds arbitrary: st)
  case Nil
  show ?case by simp
next
  case (Cons d ds)
  from documentUp_returns [OF Cons.prems, of d ev] obtain st1 where
    st1: "documentUp options d ev st = Inr st1" by blast
  from documentUp_mounted [OF st1 Cons.prems] Cons.IH [of st1] st1 show ?case by simp
qed




























end
